theory Spec2Isabelle
  imports Main "HOL-Library.Word" "HOL-Library.AList"
begin

section \<open>JavaScript strings\<close>

text \<open>
  A JavaScript string is a sequence of UTF-16 code units. The built-ins of
  \<^verbatim>\<open>String.prototype\<close> that the converter calls are written out here as
  list functions; \<open>lit\<close> turns an ASCII literal into code units.
\<close>

type_synonym jschar = "16 word"
type_synonym jsstring = "jschar list"

definition lit :: "string \<Rightarrow> jsstring" where
  "lit s = map of_char s"

definition nl :: jschar where
  "nl = 10"

text \<open>
  The characters removed by \<^verbatim>\<open>trim\<close> and \<^verbatim>\<open>trimEnd\<close> and matched by the
  regular expression class \<^verbatim>\<open>\s\<close>: ECMAScript's WhiteSpace and LineTerminator.
\<close>

definition isWhiteSpace :: "jschar \<Rightarrow> bool" where
  "isWhiteSpace c \<longleftrightarrow>
     c = 0x09 \<or> c = 0x0A \<or> c = 0x0B \<or> c = 0x0C \<or> c = 0x0D \<or> c = 0x20 \<or>
     c = 0xA0 \<or> c = 0x1680 \<or> (0x2000 \<le> c \<and> c \<le> 0x200A) \<or> c = 0x2028 \<or>
     c = 0x2029 \<or> c = 0x202F \<or> c = 0x205F \<or> c = 0x3000 \<or> c = 0xFEFF"

definition trimEnd :: "jsstring \<Rightarrow> jsstring" where
  "trimEnd s = rev (dropWhile isWhiteSpace (rev s))"

definition trim :: "jsstring \<Rightarrow> jsstring" where
  "trim s = dropWhile isWhiteSpace (trimEnd s)"

text \<open>\<^verbatim>\<open>s.startsWith(pat)\<close>, the test \<^verbatim>\<open>s.substring(0, pat.length) === pat\<close>.\<close>

definition startsWith :: "jsstring \<Rightarrow> jsstring \<Rightarrow> bool" where
  "startsWith s pat \<longleftrightarrow> take (length pat) s = pat"

text \<open>
  \<^verbatim>\<open>s.replace(/pat/g, rep)\<close> for a pattern that is a literal, non-empty string:
  the matches are found from left to right and do not overlap.
\<close>

function replaceAll :: "jsstring \<Rightarrow> jsstring \<Rightarrow> jsstring \<Rightarrow> jsstring" where
  "replaceAll pat rep [] = []"
| "replaceAll pat rep (c # cs) =
     (if pat \<noteq> [] \<and> startsWith (c # cs) pat
      then rep @ replaceAll pat rep (drop (length pat) (c # cs))
      else c # replaceAll pat rep cs)"
  by pat_completeness auto
termination
  by (relation "measure (\<lambda>(pat, rep, s). length s)") auto

fun includesStr :: "jsstring \<Rightarrow> jsstring \<Rightarrow> bool" where
  "includesStr [] pat = (pat = [])"
| "includesStr (c # cs) pat = (startsWith (c # cs) pat \<or> includesStr cs pat)"

text \<open>\<^verbatim>\<open>s.split(sep)\<close> for a separator of one code unit, and \<^verbatim>\<open>lines.join(sep)\<close>.\<close>

fun split :: "jschar \<Rightarrow> jsstring \<Rightarrow> jsstring list" where
  "split sep [] = [[]]"
| "split sep (c # cs) =
     (if c = sep then [] # split sep cs
      else (case split sep cs of [] \<Rightarrow> [[c]] | l # ls \<Rightarrow> (c # l) # ls))"

fun join :: "jsstring \<Rightarrow> jsstring list \<Rightarrow> jsstring" where
  "join sep [] = []"
| "join sep [l] = l"
| "join sep (l # ls) = l @ sep @ join sep ls"


text \<open>
  \<^verbatim>\<open>s[i]\<close> is \<^verbatim>\<open>undefined\<close> beyond the end of the string, \<^verbatim>\<open>s.substring(i, j)\<close>
  is cut at the end, and \<^verbatim>\<open>s.indexOf(pat, k)\<close> answers \<open>None\<close> for \<^verbatim>\<open>-1\<close>
  (the patterns searched for in this program are never empty).
\<close>

definition charAt :: "jsstring \<Rightarrow> nat \<Rightarrow> jschar option" where
  "charAt s i = (if i < length s then Some (s ! i) else None)"

definition substring :: "jsstring \<Rightarrow> nat \<Rightarrow> nat \<Rightarrow> jsstring" where
  "substring s i j = take (j - i) (drop i s)"

function indexOf :: "jsstring \<Rightarrow> jsstring \<Rightarrow> nat \<Rightarrow> nat option" where
  "indexOf s pat k =
     (if k + length pat \<le> length s
      then (if take (length pat) (drop k s) = pat then Some k else indexOf s pat (k + 1))
      else None)"
  by pat_completeness auto
termination
  by (relation "measure (\<lambda>(s, pat, k). Suc (length s) - k)") auto

declare indexOf.simps [simp del]

text \<open>The character classes of the regular expressions of the parser.\<close>

definition isAlnum :: "jschar \<Rightarrow> bool" where
  "isAlnum c \<longleftrightarrow> (0x61 \<le> c \<and> c \<le> 0x7A) \<or> (0x41 \<le> c \<and> c \<le> 0x5A) \<or> (0x30 \<le> c \<and> c \<le> 0x39)"

definition isAttrChar :: "jschar \<Rightarrow> bool" where
  "isAttrChar c \<longleftrightarrow> isAlnum c \<or> c = 0x5F \<or> c = 0x2D"

definition toLowerCaseAscii :: "jsstring \<Rightarrow> jsstring" where
  "toLowerCaseAscii s = map (\<lambda>c. if 0x41 \<le> c \<and> c \<le> 0x5A then c + 0x20 else c) s"

section \<open>The HTML parser\<close>

text \<open>
  \<^verbatim>\<open>Node\<close> of \<^verbatim>\<open>html-to-md.ts\<close>: a root, an element with its tag name, its
  attributes and its children, or a text. The attributes object is kept as an association
  list in insertion order; assigning to the key \<^verbatim>\<open>__proto__\<close> of an object literal
  creates no property.
\<close>

datatype node =
    Root "node list"
  | Element jsstring "(jsstring \<times> jsstring) list" "node list"
  | Text jsstring

text \<open>
  The two regular expressions of \<^verbatim>\<open>parseElement\<close>, matched at the start of the rest
  of the input: \<^verbatim>\<open>/^([a-zA-Z0-9]+)/\<close> answers the tag name, and
  \<^verbatim>\<open>/^([a-zA-Z0-9_-]+)(?:="([^"]*)")?/\<close> answers the attribute name, the quoted value
  when the optional group matches, and the length of the whole match.
\<close>

definition tagNameMatch :: "jsstring \<Rightarrow> jsstring option" where
  "tagNameMatch s = (let m = takeWhile isAlnum s in if m = [] then None else Some m)"

definition attrMatch :: "jsstring \<Rightarrow> (jsstring \<times> jsstring option \<times> nat) option" where
  "attrMatch s =
     (let name = takeWhile isAttrChar s; rest = drop (length name) s
      in if name = [] then None
         else if take 2 rest = lit (''='' @ [CHR 0x22])
           then (let v = takeWhile (\<lambda>c. c \<noteq> 0x22) (drop 2 rest)
                 in if length name + 2 + length v < length s
                    then Some (name, Some v, length name + 2 + length v + 1)
                    else Some (name, None, length name))
           else Some (name, None, length name))"

definition setAttribute :: "jsstring \<Rightarrow> jsstring \<Rightarrow> (jsstring \<times> jsstring) list \<Rightarrow> (jsstring \<times> jsstring) list" where
  "setAttribute k v attributes =
     (if k = lit ''__proto__'' then attributes else AList.update k v attributes)"

text \<open>The loops of \<^verbatim>\<open>skipWhitespace\<close> and \<^verbatim>\<open>parseText\<close>, and \<^verbatim>\<open>skipComment\<close>.\<close>

function skipWhitespace :: "jsstring \<Rightarrow> nat \<Rightarrow> nat" where
  "skipWhitespace html pos =
     (if pos < length html \<and> isWhiteSpace (html ! pos) then skipWhitespace html (pos + 1) else pos)"
  by pat_completeness auto
termination
  by (relation "measure (\<lambda>(html, pos). length html - pos)") auto

declare skipWhitespace.simps [simp del]

function parseText :: "jsstring \<Rightarrow> nat \<Rightarrow> jsstring \<Rightarrow> jsstring \<times> nat" where
  "parseText html pos text =
     (if pos < length html \<and> html ! pos \<noteq> 0x3C
      then parseText html (pos + 1) (text @ [html ! pos]) else (text, pos))"
  by pat_completeness auto
termination
  by (relation "measure (\<lambda>(html, pos, text). length html - pos)") auto

declare parseText.simps [simp del]

definition skipComment :: "jsstring \<Rightarrow> nat \<Rightarrow> nat" where
  "skipComment html pos =
     (case indexOf html (lit ''-->'') pos of Some e \<Rightarrow> e + 3 | None \<Rightarrow> length html)"

text \<open>
  The attribute loop of \<^verbatim>\<open>parseElement\<close>. It ends because every round moves the
  cursor forward.
\<close>

lemma skipWhitespace_ge: "pos \<le> skipWhitespace html pos"
  by (induction html pos rule: skipWhitespace.induct) (subst skipWhitespace.simps, auto)

lemma attrMatch_pos: "attrMatch s = Some (name, v, n) \<Longrightarrow> 0 < n"
  by (auto simp: attrMatch_def Let_def split: if_splits)

lemma skipWhitespace_advance:
  "pos < length html \<Longrightarrow> 0 < n \<Longrightarrow> length html - (skipWhitespace html pos + n) < length html - pos"
  using skipWhitespace_ge [of pos html] by arith

lemma skipWhitespace_advance_Suc:
  "pos < length html \<Longrightarrow> length html - Suc (skipWhitespace html pos) < length html - pos"
  using skipWhitespace_ge [of pos html] by arith

function parseAttributes ::
  "jsstring \<Rightarrow> nat \<Rightarrow> (jsstring \<times> jsstring) list \<Rightarrow> (jsstring \<times> jsstring) list \<times> nat" where
  "parseAttributes html pos attributes =
     (if pos < length html \<and> html ! pos \<noteq> 0x3E \<and> html ! pos \<noteq> 0x2F
      then (let pos1 = skipWhitespace html pos
            in if charAt html pos1 = Some 0x3E \<or> charAt html pos1 = Some 0x2F
               then (attributes, pos1)
               else (case attrMatch (drop pos1 html) of
                       Some (name, v, n) \<Rightarrow>
                         parseAttributes html (pos1 + n)
                           (setAttribute name (case v of Some x \<Rightarrow> x | None \<Rightarrow> []) attributes)
                     | None \<Rightarrow> parseAttributes html (pos1 + 1) attributes))
      else (attributes, pos))"
  by pat_completeness auto
termination
  by (relation "measure (\<lambda>(html, pos, attributes). length html - pos)")
     (auto intro!: skipWhitespace_advance skipWhitespace_advance_Suc dest: attrMatch_pos)

declare parseAttributes.simps [simp del]



text \<open>
  \<^verbatim>\<open>parseElement\<close> in three parts: \<open>openTag\<close> reads the tag name, the attributes and
  the closing \<^verbatim>\<open>/\<close> and \<^verbatim>\<open>>\<close>; the children are parsed unless the tag is in the
  list \<open>selfClosing\<close>; \<open>skipEndTag\<close> searches the end tag from the cursor in the
  lower-cased input. \<^verbatim>\<open>String.prototype.toLowerCase\<close> applies the Unicode case mapping to
  the whole input; it is a parameter of the parser. On the tag name, which consists of
  ASCII letters and digits, it is \<open>toLowerCaseAscii\<close>.
\<close>

definition selfClosing :: "jsstring list" where
  "selfClosing = map lit [''img'', ''br'', ''hr'', ''input'', ''meta'', ''link'', ''area'', ''base'',
     ''col'', ''embed'', ''param'', ''source'', ''track'', ''wbr'']"

definition openTag :: "jsstring \<Rightarrow> nat \<Rightarrow> (jsstring \<times> (jsstring \<times> jsstring) list \<times> nat) option" where
  "openTag html pos =
     (case tagNameMatch (drop (pos + 1) html) of
        None \<Rightarrow> None
      | Some m \<Rightarrow>
          (let tagName = toLowerCaseAscii m;
               pos2 = pos + 1 + length tagName
           in case parseAttributes html pos2 [] of (attributes, pos3) \<Rightarrow>
             (let pos4 = (if charAt html pos3 = Some 0x2F then pos3 + 1 else pos3);
                  pos5 = (if charAt html pos4 = Some 0x3E then pos4 + 1 else pos4)
              in Some (tagName, attributes, pos5))))"

definition skipEndTag :: "(jsstring \<Rightarrow> jsstring) \<Rightarrow> jsstring \<Rightarrow> jsstring \<Rightarrow> nat \<Rightarrow> nat" where
  "skipEndTag toLowerCase html tagName pos =
     (let endTag = lit ''</'' @ tagName @ lit ''>''
      in case indexOf (toLowerCase html) (toLowerCaseAscii endTag) pos of
           Some endPos \<Rightarrow> endPos + length endTag
         | None \<Rightarrow> pos)"

text \<open>The cursor never moves backwards; this is what the termination of the parser needs.\<close>

lemma indexOf_ge: "indexOf s pat k = Some e \<Longrightarrow> k \<le> e"
proof (induction s pat k rule: indexOf.induct)
  case (1 s pat k)
  from "1.prems" have "k + length pat \<le> length s"
    by (subst (asm) indexOf.simps) (simp split: if_splits)
  show ?case
  proof (cases "take (length pat) (drop k s) = pat")
    case True
    with "1.prems" \<open>k + length pat \<le> length s\<close> show ?thesis
      by (subst (asm) indexOf.simps) simp
  next
    case False
    with "1.prems" \<open>k + length pat \<le> length s\<close> have "indexOf s pat (k + 1) = Some e"
      by (subst (asm) indexOf.simps) simp
    with "1.IH" False \<open>k + length pat \<le> length s\<close> show ?thesis by fastforce
  qed
qed

lemma skipComment_gt: "pos < length html \<Longrightarrow> pos < skipComment html pos"
  by (auto simp: skipComment_def split: option.splits dest: indexOf_ge)

lemma parseText_ge: "pos \<le> snd (parseText html pos t)"
  by (induction html pos t rule: parseText.induct) (subst parseText.simps, auto)

lemma parseText_gt:
  "pos < length html \<Longrightarrow> html ! pos \<noteq> 0x3C \<Longrightarrow> pos < snd (parseText html pos t)"
  using parseText_ge [of "pos + 1" html "t @ [html ! pos]"]
  by (subst parseText.simps) auto

lemma parseAttributes_ge: "pos \<le> snd (parseAttributes html pos attributes)"
proof (induction html pos attributes rule: parseAttributes.induct)
  case (1 html pos attributes)
  show ?case
    using 1 skipWhitespace_ge [of pos html]
    by (subst parseAttributes.simps) (fastforce simp: Let_def split: option.splits)
qed


lemma openTag_gt: "openTag html pos = Some (tagName, attributes, pos5) \<Longrightarrow> pos < pos5"
  using parseAttributes_ge [of "pos + 1 + length (toLowerCaseAscii (the (tagNameMatch (drop (pos + 1) html))))" html "[]"]
  by (auto simp: openTag_def Let_def split: option.splits prod.splits if_splits)

lemma tagNameMatch_Some: "tagNameMatch (drop k html) = Some m \<Longrightarrow> k < length html"
  by (cases "k < length html") (auto simp: tagNameMatch_def)

lemma openTag_lt: "openTag html pos = Some r \<Longrightarrow> pos + 1 < length html"
  by (auto simp: openTag_def split: option.splits dest: tagNameMatch_Some)

lemma skipEndTag_ge: "pos \<le> skipEndTag lc html tagName pos"
  by (auto simp: skipEndTag_def Let_def split: option.splits dest: indexOf_ge)

text \<open>
  \<^verbatim>\<open>parseChildren\<close> and \<^verbatim>\<open>parseElement\<close>. Both answer their result together with the
  new cursor; the children pushed by the loop of \<^verbatim>\<open>parseChildren\<close> are the list answered.
\<close>

function parseChildren :: "(jsstring \<Rightarrow> jsstring) \<Rightarrow> jsstring \<Rightarrow> nat \<Rightarrow> node list \<times> nat"
  and parseElement :: "(jsstring \<Rightarrow> jsstring) \<Rightarrow> jsstring \<Rightarrow> nat \<Rightarrow> node option \<times> nat" where
  "parseChildren toLowerCase html pos =
     (if pos < length html then
        (if html ! pos = 0x3C then
           (if substring html pos (pos + 2) = lit ''</'' then ([], pos)
            else if substring html pos (pos + 4) = lit ''<!--''
            then parseChildren toLowerCase html (skipComment html pos)
            else (case parseElement toLowerCase html pos of (element, pos') \<Rightarrow>
                   (case parseChildren toLowerCase html pos' of (children, pos'') \<Rightarrow>
                      ((case element of Some e \<Rightarrow> e # children | None \<Rightarrow> children), pos''))))
         else (case parseText html pos [] of (text, pos') \<Rightarrow>
                (case parseChildren toLowerCase html pos' of (children, pos'') \<Rightarrow>
                   ((if trim text \<noteq> [] \<or> 0x20 \<in> set text then Text text # children else children),
                    pos''))))
      else ([], pos))"
| "parseElement toLowerCase html pos =
     (case openTag html pos of
        None \<Rightarrow> (None, pos + 1)
      | Some (tagName, attributes, pos5) \<Rightarrow>
          (if tagName \<notin> set selfClosing
           then (case parseChildren toLowerCase html pos5 of (children, pos6) \<Rightarrow>
                  (Some (Element tagName attributes children),
                   skipEndTag toLowerCase html tagName pos6))
           else (Some (Element tagName attributes []), pos5)))"
  by pat_completeness auto

termination
proof -
  have parseChildren_pos_mono:
    "parseChildren_parseElement_dom (Inl (lc, html, pos)) \<Longrightarrow> pos \<le> snd (parseChildren lc html pos)"
    and parseElement_pos_mono:
    "parseChildren_parseElement_dom (Inr (lc, html, pos)) \<Longrightarrow> pos < snd (parseElement lc html pos)"
    for lc html pos
  proof (induction lc html pos rule: parseChildren_parseElement.pinduct)
    case (1 lc html pos)
    note ps = parseChildren.psimps [OF 1(1)]
    show ?case
    proof (cases "pos < length html")
      case False
      then show ?thesis by (simp add: ps)
    next
      case len: True
      show ?thesis
      proof (cases "html ! pos = 0x3C")
        case lt: True
        show ?thesis
        proof (cases "substring html pos (pos + 2) = lit ''</''")
          case True
          then show ?thesis using len lt by (simp add: ps)
        next
          case nc: False
          show ?thesis
          proof (cases "substring html pos (pos + 4) = lit ''<!--''")
            case True
            have "skipComment html pos \<le> snd (parseChildren lc html (skipComment html pos))"
              using 1(2) [OF len lt nc True] .
            with skipComment_gt [OF len] show ?thesis
              using len lt nc True by (simp add: ps)
          next
            case ne: False
            obtain el p' where pe: "parseElement lc html pos = (el, p')"
              by (cases "parseElement lc html pos")
            have "pos < p'" using 1(3) [OF len lt nc ne] pe by simp
            moreover have "p' \<le> snd (parseChildren lc html p')"
              using 1(4) [OF len lt nc ne pe [symmetric]] .
            ultimately show ?thesis
              using len lt nc ne by (auto simp add: ps pe split: prod.splits)
          qed
        qed
      next
        case nlt: False
        obtain t p' where pt: "parseText html pos [] = (t, p')"
          by (cases "parseText html pos []")
        have "pos < p'" using parseText_gt [OF len nlt, of "[]"] pt by simp
        moreover have "p' \<le> snd (parseChildren lc html p')"
          using 1(5) [OF len nlt pt [symmetric]] .
        ultimately show ?thesis
          using len nlt by (auto simp add: ps pt split: prod.splits)
      qed
    qed
  next
    case (2 lc html pos)
    show ?case
    proof (cases "openTag html pos")
      case None
      then show ?thesis by (simp add: parseElement.psimps [OF 2(1)])
    next
      case (Some r)
      obtain tagName attributes pos5 where r: "r = (tagName, attributes, pos5)" by (cases r)
      have p5: "pos < pos5" using Some r openTag_gt by blast
      show ?thesis
      proof (cases "tagName \<in> set selfClosing")
        case True
        then show ?thesis using Some r p5 by (simp add: parseElement.psimps [OF 2(1)])
      next
        case False
        have "pos5 \<le> snd (parseChildren lc html pos5)"
          using 2(2) [OF Some [unfolded r] refl refl False] .
        then show ?thesis
          using Some r p5 False skipEndTag_ge [of "snd (parseChildren lc html pos5)" lc html tagName]
          by (auto simp add: parseElement.psimps [OF 2(1)] split: prod.splits)
      qed
    qed
  qed
  show ?thesis
  proof (relation "measure (\<lambda>x. case x of Inl (lc, html, pos) \<Rightarrow> 2 * (length html - pos) + 1
                                     | Inr (lc, html, pos) \<Rightarrow> 2 * (length html - pos))", goal_cases)
    case 1
    show ?case by simp
  next
    case (2 lc html pos)
    have "pos < skipComment html pos" using 2(1) by (rule skipComment_gt)
    with 2(1) show ?case by simp
  next
    case (3 lc html pos)
    show ?case by simp
  next
    case (4 lc html pos x y)
    have "pos < snd (parseElement lc html pos)" using 4(6) by (rule parseElement_pos_mono)
    moreover have "snd (parseElement lc html pos) = y" using 4(5) by (metis snd_conv)
    ultimately show ?case using 4(1) by simp
  next
    case (5 lc html pos x y)
    have "pos < snd (parseText html pos [])" using 5(1,2) by (rule parseText_gt)
    moreover have "snd (parseText html pos []) = y" using 5(3) by (metis snd_conv)
    ultimately show ?case using 5(1) by simp
  next
    case (6 lc html pos r tagName rest attributes pos5)
    have "pos + 1 < length html" using 6(1) by (rule openTag_lt)
    moreover have "pos < pos5" using 6(1,2,3) openTag_gt by blast
    ultimately show ?case by simp
  qed
qed

declare parseChildren.simps [simp del] parseElement.simps [simp del]

definition parse :: "(jsstring \<Rightarrow> jsstring) \<Rightarrow> jsstring \<Rightarrow> node" where
  "parse toLowerCase html = Root (fst (parseChildren toLowerCase html 0))"



text \<open>
  Where the loop of \<^verbatim>\<open>parseChildren\<close> leaves the cursor: at the end of the input or in
  front of a closing tag.
\<close>

definition stopsAt :: "jsstring \<Rightarrow> nat \<Rightarrow> bool" where
  "stopsAt html pos \<longleftrightarrow> length html \<le> pos \<or> substring html pos (pos + 2) = lit ''</''"

text \<open>
  The recursion of the source is on the call stack of the engine: an element that is
  open costs one activation of \<^verbatim>\<open>parseElement\<close> and one of \<^verbatim>\<open>parseChildren\<close>, and the
  stack of an engine is finite. The functions above have no such bound. \<open>depth\<close>
  counts the levels of a tree, \<open>unclosed n\<close> is the input of \<open>n\<close> tags
  \<^verbatim>\<open><p>\<close> that are never closed, and \<open>nested n\<close> is the chain of \<open>n\<close> elements, each
  the only child of the one before.
\<close>

fun depth :: "node \<Rightarrow> nat" where
  "depth (Text content) = 0"
| "depth (Root cs) = Suc (foldr max (map depth cs) 0)"
| "depth (Element tagName attrs cs) = Suc (foldr max (map depth cs) 0)"

definition unclosed :: "nat \<Rightarrow> jsstring" where
  "unclosed n = concat (replicate n (lit ''<p>''))"

fun nested :: "nat \<Rightarrow> node list" where
  "nested 0 = []"
| "nested (Suc n) = [Element (lit ''p'') [] (nested n)]"


section \<open>The Markdown renderer\<close>

text \<open>
  \<^verbatim>\<open>decodeHtmlEntities\<close>: the named entities are replaced one after the other in the
  order of the table, then the decimal and the hexadecimal character references.
  \<^verbatim>\<open>parseInt\<close> is the exact value of the digits here, which is what the source
  computes for a value below \<open>2 ^ 53\<close>; beyond, the source rounds to a double, which is
  not part of the model. \<^verbatim>\<open>String.fromCharCode\<close> keeps the low 16 bits.
\<close>

definition entities :: "(jsstring \<times> jsstring) list" where
  "entities =
     [(lit ''&amp;'', lit ''&''), (lit ''&lt;'', lit ''<''), (lit ''&gt;'', lit ''>''),
      (lit ''&quot;'', [0x22]), (lit ''&#39;'', [0x27]), (lit ''&nbsp;'', lit '' ''),
      (lit ''&copy;'', [0xA9]), (lit ''&reg;'', [0xAE]), (lit ''&trade;'', [0x2122]),
      (lit ''&mdash;'', [0x2014]), (lit ''&ndash;'', [0x2013]), (lit ''&hellip;'', [0x2026]),
      (lit ''&lsquo;'', [0x27]), (lit ''&rsquo;'', [0x27]), (lit ''&ldquo;'', [0x22]),
      (lit ''&rdquo;'', [0x22])]"

definition isDigit :: "jschar \<Rightarrow> bool" where
  "isDigit c \<longleftrightarrow> 0x30 \<le> c \<and> c \<le> 0x39"

definition isHexDigit :: "jschar \<Rightarrow> bool" where
  "isHexDigit c \<longleftrightarrow> isDigit c \<or> (0x61 \<le> c \<and> c \<le> 0x66) \<or> (0x41 \<le> c \<and> c \<le> 0x46)"

definition digitValue :: "jschar \<Rightarrow> nat" where
  "digitValue c =
     (if isDigit c then unat c - 0x30
      else if 0x61 \<le> c \<and> c \<le> 0x66 then unat c - 0x61 + 10
      else unat c - 0x41 + 10)"

definition parseInt :: "nat \<Rightarrow> jsstring \<Rightarrow> nat" where
  "parseInt radix digits = foldl (\<lambda>n c. n * radix + digitValue c) 0 digits"

definition fromCharCode :: "nat \<Rightarrow> jschar" where
  "fromCharCode n = of_nat n"

function replaceNumeric :: "jsstring \<Rightarrow> (jschar \<Rightarrow> bool) \<Rightarrow> nat \<Rightarrow> jsstring \<Rightarrow> jsstring" where
  "replaceNumeric prefix isDig radix [] = []"
| "replaceNumeric prefix isDig radix (c # cs) =
     (let code = takeWhile isDig (drop (length prefix) (c # cs));
          rest = drop (length prefix + length code) (c # cs)
      in if startsWith (c # cs) prefix \<and> code \<noteq> [] \<and> startsWith rest (lit '';'')
         then fromCharCode (parseInt radix code) # replaceNumeric prefix isDig radix (drop 1 rest)
         else c # replaceNumeric prefix isDig radix cs)"
  by pat_completeness auto
termination
  by (relation "measure (\<lambda>(prefix, isDig, radix, s). length s)") (auto simp: startsWith_def lit_def)

definition decodeHtmlEntities :: "jsstring \<Rightarrow> jsstring" where
  "decodeHtmlEntities text =
     (let result = foldl (\<lambda>result (entity, char). replaceAll entity char result) text entities;
          result = replaceNumeric (lit ''&#'') isDigit 10 result;
          result = replaceNumeric (lit ''&#x'') isHexDigit 16 result
      in result)"

text \<open>
  \<^verbatim>\<open>nodeToMarkdown\<close>. \<open>matchLanguage\<close> is the first match of
  \<^verbatim>\<open>/language-(\w+)/\<close>, \<open>stripNewlines\<close> the replacement of \<^verbatim>\<open>/^\n+|\n+$/g\<close> by the
  empty string, and \<open>attr\<close> the value of an attribute or the empty string.
\<close>

datatype headingStyle = ATX | SETEXT

definition isWordChar :: "jschar \<Rightarrow> bool" where
  "isWordChar c \<longleftrightarrow> isAlnum c \<or> c = 0x5F"

fun matchLanguage :: "jsstring \<Rightarrow> jsstring option" where
  "matchLanguage [] = None"
| "matchLanguage (c # cs) =
     (let w = takeWhile isWordChar (drop 9 (c # cs))
      in if startsWith (c # cs) (lit ''language-'') \<and> w \<noteq> [] then Some w
         else matchLanguage cs)"

definition stripNewlines :: "jsstring \<Rightarrow> jsstring" where
  "stripNewlines s = rev (dropWhile (\<lambda>c. c = nl) (rev (dropWhile (\<lambda>c. c = nl) s)))"

definition attr :: "(jsstring \<times> jsstring) list \<Rightarrow> jsstring \<Rightarrow> jsstring" where
  "attr attrs k = (case map_of attrs k of Some v \<Rightarrow> v | None \<Rightarrow> [])"

definition tagNameOf :: "node \<Rightarrow> jsstring option" where
  "tagNameOf n = (case n of Element t a cs \<Rightarrow> Some t | _ \<Rightarrow> None)"

definition heading :: "nat \<Rightarrow> jsstring \<Rightarrow> jsstring" where
  "heading n children = [nl] @ replicate n 0x23 @ lit '' '' @ trim children @ [nl, nl]"

definition setext :: "jschar \<Rightarrow> jsstring \<Rightarrow> jsstring" where
  "setext c children =
     [nl] @ trim children @ [nl] @ replicate (length (trim children)) c @ [nl, nl]"

definition titlePart :: "(jsstring \<times> jsstring) list \<Rightarrow> jsstring" where
  "titlePart attrs =
     (if attr attrs (lit ''title'') \<noteq> []
      then lit '' '' @ [0x22] @ attr attrs (lit ''title'') @ [0x22] else [])"

fun nodeToMarkdown :: "node \<Rightarrow> headingStyle \<Rightarrow> jsstring" where
  "nodeToMarkdown (Text content) options = decodeHtmlEntities content"
| "nodeToMarkdown (Root cs) options = concat (map (\<lambda>child. nodeToMarkdown child options) cs)"
| "nodeToMarkdown (Element tagName attrs cs) options =
     (let children = concat (map (\<lambda>child. nodeToMarkdown child options) cs)
      in if tagName = lit ''h1'' then
           (if options = ATX then heading 1 children else setext 0x3D children)
         else if tagName = lit ''h2'' then
           (if options = ATX then heading 2 children else setext 0x2D children)
         else if tagName = lit ''h3'' then heading 3 children
         else if tagName = lit ''h4'' then heading 4 children
         else if tagName = lit ''h5'' then heading 5 children
         else if tagName = lit ''h6'' then heading 6 children
         else if tagName = lit ''p'' then [nl] @ children @ [nl, nl]
         else if tagName = lit ''br'' then [nl]
         else if tagName = lit ''hr'' then [nl] @ lit ''---'' @ [nl, nl]
         else if tagName = lit ''strong'' \<or> tagName = lit ''b'' then lit ''**'' @ children @ lit ''**''
         else if tagName = lit ''em'' \<or> tagName = lit ''i'' then lit ''*'' @ children @ lit ''*''
         else if tagName = lit ''code'' then lit ''`'' @ children @ lit ''`''
         else if tagName = lit ''pre'' then
           (let lang = (if attr attrs (lit ''data-language'') \<noteq> []
                        then attr attrs (lit ''data-language'')
                        else (case map_of attrs (lit ''class'') of
                                None \<Rightarrow> []
                              | Some cl \<Rightarrow> (case matchLanguage cl of None \<Rightarrow> [] | Some w \<Rightarrow> w)));
                codeContent = stripNewlines children
            in [nl] @ lit ''```'' @ lang @ [nl] @ codeContent @ [nl] @ lit ''```'' @ [nl, nl])
         else if tagName = lit ''blockquote'' then
           (let lines = split nl (trim children)
            in [nl] @ join [nl] (map (\<lambda>line. lit ''> '' @ line) lines) @ [nl, nl])
         else if tagName = lit ''ul'' then [nl] @ children @ [nl]
         else if tagName = lit ''ol'' then [nl] @ children @ [nl]
         else if tagName = lit ''li'' then lit ''- '' @ trim children @ [nl]
         else if tagName = lit ''a'' then
           (let href = attr attrs (lit ''href'')
            in if href = [] then children
               else lit ''['' @ children @ lit ''](''  @ href @ titlePart attrs @ lit '')'')
         else if tagName = lit ''img'' then
           lit ''!['' @ attr attrs (lit ''alt'') @ lit '']('' @ attr attrs (lit ''src'')
             @ titlePart attrs @ lit '')''
         else if tagName = lit ''table'' then [nl] @ children @ [nl]
         else if tagName = lit ''thead'' then children
         else if tagName = lit ''tbody'' then children
         else if tagName = lit ''tr'' then
           (let cells = map (\<lambda>child. trim (nodeToMarkdown child options))
                          (filter (\<lambda>child. tagNameOf child = Some (lit ''td'')
                                           \<or> tagNameOf child = Some (lit ''th'')) cs);
                isHeader = list_ex (\<lambda>child. tagNameOf child = Some (lit ''th'')) cs;
                row = lit ''| '' @ join (lit '' | '') cells @ lit '' |'' @ [nl]
            in if isHeader
               then row @ lit ''| '' @ join (lit '' | '') (map (\<lambda>c. lit ''---'') cells)
                        @ lit '' |'' @ [nl]
               else row)
         else if tagName = lit ''td'' \<or> tagName = lit ''th'' then children
         else if tagName = lit ''del'' \<or> tagName = lit ''s'' \<or> tagName = lit ''strike''
           then lit ''~~'' @ children @ lit ''~~''
         else if tagName = lit ''sup'' then lit ''^'' @ children @ lit ''^''
         else if tagName = lit ''sub'' then lit ''~'' @ children @ lit ''~''
         else if tagName \<in> set (map lit [''div'', ''span'', ''section'', ''article'', ''header'',
                                         ''footer'', ''main'', ''aside'', ''nav'']) then children
         else if tagName \<in> set (map lit [''script'', ''style'', ''noscript'']) then []
         else children)"

text \<open>\<^verbatim>\<open>htmlToMarkdown\<close>; the option left out means the default heading style.\<close>

definition htmlToMarkdown ::
  "(jsstring \<Rightarrow> jsstring) \<Rightarrow> jsstring \<Rightarrow> headingStyle option \<Rightarrow> jsstring" where
  "htmlToMarkdown toLowerCase html options =
     (let mergedOptions = (case options of None \<Rightarrow> ATX | Some h \<Rightarrow> h)
      in if html = [] \<or> trim html = [] then []
         else nodeToMarkdown (parse toLowerCase html) mergedOptions)"

section \<open>File names\<close>

text \<open>
  \<^verbatim>\<open>sanitizeFileName\<close> of \<^verbatim>\<open>index.ts\<close>: ten global replacements, one character
  each, applied one after the other in the order of the source.
\<close>

definition sanitizeFileName :: "jsstring \<Rightarrow> jsstring" where
  "sanitizeFileName name =
     replaceAll (lit '':'') (lit ''_'')
      (replaceAll (lit [CHR 0x22]) (lit ''_'')
       (replaceAll (lit ''|'') (lit ''_'')
        (replaceAll (lit ''>'') (lit ''_'')
         (replaceAll (lit ''<'') (lit ''_'')
          (replaceAll (lit ''*'') (lit ''_'')
           (replaceAll (lit ''?'') (lit ''_'')
            (replaceAll (lit '' '') (lit ''_'')
             (replaceAll (lit [CHR 0x5C]) (lit ''_'')
              (replaceAll (lit ''/'') (lit ''_'') name)))))))))"

text \<open>The ten characters that \<^verbatim>\<open>sanitizeFileName\<close> replaces.\<close>

definition unsafeChars :: "jschar list" where
  "unsafeChars = lit (''/'' @ [CHR 0x5C] @ '' ?*<>|'' @ [CHR 0x22] @ '':'')"

section \<open>The text normalizer\<close>

text \<open>
  \<^verbatim>\<open>prettyMd\<close> of \<^verbatim>\<open>index.ts\<close>. The first loop trims every line in place;
  the second loop runs at most 50 passes of the replacement and leaves as soon as
  a pass yields a text without three newlines in a row.
\<close>

fun collapseLoop :: "nat \<Rightarrow> jsstring \<Rightarrow> jsstring" where
  "collapseLoop 0 output = output"
| "collapseLoop (Suc n) output =
     (let output' = replaceAll [nl, nl, nl] [nl, nl] output
      in if \<not> includesStr output' [nl, nl, nl] then output' else collapseLoop n output')"

definition prettyMd :: "jsstring \<Rightarrow> jsstring" where
  "prettyMd text = collapseLoop 50 (join [nl] (map trimEnd (split nl text)))"

section \<open>The table of contents\<close>

text \<open>
  \<^verbatim>\<open>TocItem\<close> and \<^verbatim>\<open>DocFile\<close> of \<^verbatim>\<open>index.ts\<close>; an optional field is an option.
\<close>

record TocItem =
  item_type :: jsstring
  item_url :: "jsstring option"
  item_level :: "int option"
  item_title :: "jsstring option"

record DocFile =
  body :: "jsstring option"
  body_asl :: "jsstring option"

type_synonym bytes = "8 word list"

datatype zipData = TextFile jsstring | BinaryFile bytes

datatype error = DocError

text \<open>
  What \<^verbatim>\<open>extractRepos\<close> takes from outside: the lower-casing of the parser, the
  successive values of \<^verbatim>\<open>Math.floor(Math.random() * 1000)\<close>, the decoding of a document
  file (\<open>None\<close> when \<^verbatim>\<open>JSON.parse\<close> or the access to \<^verbatim>\<open>doc.doc\<close> throws), and
  \<^verbatim>\<open>downloadImageAndPatchHtml\<close>, which answers the patched text and the attachments.
\<close>

record env =
  toLowerCase :: "jsstring \<Rightarrow> jsstring"
  random :: "nat \<Rightarrow> nat"
  decodeDoc :: "bytes \<Rightarrow> DocFile option"
  downloadImageAndPatchHtml :: "jsstring \<Rightarrow> jsstring \<Rightarrow> jsstring \<times> (jsstring \<times> bytes) list"

text \<open>The variables of the loop, the archive as the list of the calls of \<^verbatim>\<open>zip.file\<close>.\<close>

record state =
  zip :: "(jsstring \<times> zipData) list"
  lastLevel :: int
  lastSanitizedTitle :: jsstring
  pathPrefixed :: "jsstring list"
  usedNames :: "jsstring set"
  draws :: nat

text \<open>\<^verbatim>\<open>String(n)\<close> for a natural number, and \<^verbatim>\<open>xs.slice(start, stop)\<close>.\<close>

fun numberToString :: "nat \<Rightarrow> jsstring" where
  "numberToString n =
     (if n < 10 then [of_nat (48 + n)]
      else numberToString (n div 10) @ [of_nat (48 + n mod 10)])"

declare numberToString.simps [simp del]

definition slice :: "'a list \<Rightarrow> int \<Rightarrow> int \<Rightarrow> 'a list" where
  "slice xs start stop =
     (let len = int (length xs);
          k = (if start < 0 then max (len + start) 0 else min start len);
          final = (if stop < 0 then max (len + stop) 0 else min stop len)
      in take (nat (final - k)) (drop (nat k) xs))"

text \<open>
  The loop that looks for an unused name. It runs as long as the candidate is in the set
  of used names, so it need not end: \<open>None\<close> is the loop that runs forever.
\<close>

partial_function (option) uniqueName ::
  "(nat \<Rightarrow> nat) \<Rightarrow> jsstring set \<Rightarrow> jsstring \<Rightarrow> jsstring \<Rightarrow> nat \<Rightarrow> (jsstring \<times> nat) option" where
  "uniqueName rnd used title sanitizedTitle k =
     (if sanitizedTitle \<in> used
      then uniqueName rnd used title (sanitizeFileName title @ numberToString (rnd k)) (Suc k)
      else Some (sanitizedTitle, k))"

text \<open>The update of the directory stack.\<close>

definition updatePath :: "jsstring list \<Rightarrow> jsstring \<Rightarrow> int \<Rightarrow> int \<Rightarrow> jsstring list" where
  "updatePath path lastTitle lastLvl currentLevel =
     (if currentLevel > lastLvl then path @ [lastTitle]
      else if currentLevel < lastLvl
      then (let diff = lastLvl - currentLevel in slice path 0 (- diff))
      else path)"

text \<open>The block of a \<^verbatim>\<open>DOC\<close> entry: it answers the archive with the files added.\<close>

definition writeDoc ::
  "env \<Rightarrow> (jsstring \<rightharpoonup> bytes) \<Rightarrow> jsstring \<Rightarrow> bool \<Rightarrow> (jsstring \<times> zipData) list \<Rightarrow>
   jsstring list \<Rightarrow> jsstring \<Rightarrow> jsstring \<Rightarrow> error + (jsstring \<times> zipData) list" where
  "writeDoc e files repoDir downloadImage z path sanitizedTitle url =
     (let outputDirPath = join (lit ''/'') path;
          rawPath = repoDir @ lit ''/'' @ url @ lit ''.json''
      in case files rawPath of
           None \<Rightarrow> Inr z
         | Some rawData \<Rightarrow>
            (case decodeDoc e rawData of
               None \<Rightarrow> Inl DocError
             | Some doc \<Rightarrow>
                (let html = (case body doc of
                               Some b \<Rightarrow> if b \<noteq> [] then b
                                         else (case body_asl doc of Some a \<Rightarrow> a | None \<Rightarrow> [])
                             | None \<Rightarrow> (case body_asl doc of Some a \<Rightarrow> a | None \<Rightarrow> []));
                     patched = (if downloadImage \<and> html \<noteq> []
                                then downloadImageAndPatchHtml e html sanitizedTitle
                                else (html, []));
                     z1 = z @ map (\<lambda>(attachPath, data).
                                     (if outputDirPath \<noteq> []
                                      then outputDirPath @ lit ''/'' @ attachPath
                                      else attachPath, BinaryFile data)) (snd patched);
                     markdown = prettyMd (htmlToMarkdown (toLowerCase e) (fst patched) None);
                     outputPath = (if outputDirPath \<noteq> []
                                   then outputDirPath @ lit ''/'' @ sanitizedTitle @ lit ''.md''
                                   else sanitizedTitle @ lit ''.md'')
                 in Inr (z1 @ [(outputPath, TextFile markdown)]))))"

text \<open>One round of the loop of \<^verbatim>\<open>extractRepos\<close>, and the loop.\<close>

definition processItem ::
  "env \<Rightarrow> (jsstring \<rightharpoonup> bytes) \<Rightarrow> jsstring \<Rightarrow> bool \<Rightarrow> state \<Rightarrow> TocItem \<Rightarrow> (error + state) option" where
  "processItem e files repoDir downloadImage st item =
     (let url = (case item_url item of Some u \<Rightarrow> u | None \<Rightarrow> []);
          currentLevel = (case item_level item of Some l \<Rightarrow> l | None \<Rightarrow> 0);
          title = (case item_title item of Some t \<Rightarrow> t | None \<Rightarrow> [])
      in if title = [] then Some (Inr st)
         else (case uniqueName (random e) (usedNames st) title (sanitizeFileName title) (draws st) of
                 None \<Rightarrow> None
               | Some (sanitizedTitle, k) \<Rightarrow>
                  (let path = updatePath (pathPrefixed st) (lastSanitizedTitle st) (lastLevel st)
                                currentLevel
                   in case (if item_type item = lit ''DOC''
                            then writeDoc e files repoDir downloadImage (zip st) path sanitizedTitle url
                            else Inr (zip st)) of
                        Inl err \<Rightarrow> Some (Inl err)
                      | Inr z \<Rightarrow>
                          Some (Inr (st\<lparr>zip := z, lastLevel := currentLevel,
                                        lastSanitizedTitle := sanitizedTitle, pathPrefixed := path,
                                        usedNames := insert sanitizedTitle (usedNames st),
                                        draws := k\<rparr>)))))"

fun extractLoop ::
  "env \<Rightarrow> (jsstring \<rightharpoonup> bytes) \<Rightarrow> jsstring \<Rightarrow> bool \<Rightarrow> state \<Rightarrow> TocItem list \<Rightarrow> (error + state) option" where
  "extractLoop e files repoDir downloadImage st [] = Some (Inr st)"
| "extractLoop e files repoDir downloadImage st (item # toc) =
     (case processItem e files repoDir downloadImage st item of
        None \<Rightarrow> None
      | Some (Inl err) \<Rightarrow> Some (Inl err)
      | Some (Inr st') \<Rightarrow> extractLoop e files repoDir downloadImage st' toc)"

definition initialState :: state where
  "initialState = \<lparr>zip = [], lastLevel = 0, lastSanitizedTitle = [], pathPrefixed = [],
                    usedNames = {}, draws = 0\<rparr>"

definition extractRepos ::
  "env \<Rightarrow> (jsstring \<rightharpoonup> bytes) \<Rightarrow> jsstring \<Rightarrow> TocItem list \<Rightarrow> bool \<Rightarrow> (error + state) option" where
  "extractRepos e files repoDir toc downloadImage =
     extractLoop e files repoDir downloadImage initialState toc"

section \<open>Inputs for the examples\<close>

text \<open>
  The four entries of the hierarchy example of the specification, an environment, and an
  archive that holds one document under the path read for an entry without \<^verbatim>\<open>url\<close>.
\<close>

definition tocItem :: "string \<Rightarrow> int \<Rightarrow> string \<Rightarrow> TocItem" where
  "tocItem t l ty = \<lparr>item_type = lit ty, item_url = None, item_level = Some l, item_title = Some (lit t)\<rparr>"

definition exampleToc :: "TocItem list" where
  "exampleToc = [tocItem ''A'' 0 ''TITLE'', tocItem ''B'' 1 ''DOC'', tocItem ''C'' 1 ''DOC'', tocItem ''D'' 0 ''DOC'']"

definition exampleEnv :: env where
  "exampleEnv = \<lparr>toLowerCase = toLowerCaseAscii, random = (\<lambda>k. k mod 1000),
     decodeDoc = (\<lambda>raw. Some \<lparr>body = Some (lit ''<p>x</p>''), body_asl = None\<rparr>),
     downloadImageAndPatchHtml = (\<lambda>html t. (html, []))\<rparr>"

definition exampleFiles :: "jsstring \<rightharpoonup> bytes" where
  "exampleFiles = [lit ''repo/.json'' \<mapsto> []]"

definition underflowState :: state where
  "underflowState = initialState\<lparr>lastLevel := 3, lastSanitizedTitle := lit ''B'',
     pathPrefixed := [lit ''A''], usedNames := {lit ''A'', lit ''B''}\<rparr>"

text \<open>
  A table of contents with an entry without title and with titles that hold characters
  to replace, and a state in which the name of the next entry is taken.
\<close>

definition sanitizedToc :: "TocItem list" where
  "sanitizedToc =
     [\<lparr>item_type = lit ''TITLE'', item_url = None, item_level = Some 0,
        item_title = Some (lit ''My Notes: 1'')\<rparr>,
      \<lparr>item_type = lit ''DOC'', item_url = None, item_level = Some 5, item_title = Some []\<rparr>,
      \<lparr>item_type = lit ''DOC'', item_url = None, item_level = Some 1,
        item_title = Some (lit ''B/C'')\<rparr>]"

definition pushState :: state where
  "pushState = initialState\<lparr>lastLevel := 0, lastSanitizedTitle := lit ''A_1'',
     usedNames := {lit ''A_1'', lit ''B''}\<rparr>"

text \<open>
  A table of contents of 1002 entries: the titles \<^verbatim>\<open>a0\<close> to \<^verbatim>\<open>a999\<close>, and the
  title \<^verbatim>\<open>a\<close> twice. \<open>exhausted\<close> says that a candidate and all the names that the
  loop of \<open>uniqueName\<close> can try after it are used.
\<close>

definition titled :: "jsstring \<Rightarrow> TocItem" where
  "titled t = \<lparr>item_type = lit ''TITLE'', item_url = None, item_level = Some 0, item_title = Some t\<rparr>"

definition collisionToc :: "TocItem list" where
  "collisionToc =
     map (\<lambda>n. titled (lit ''a'' @ numberToString n)) [0..<1000] @ [titled (lit ''a''), titled (lit ''a'')]"

definition exhausted :: "(nat \<Rightarrow> nat) \<Rightarrow> jsstring set \<Rightarrow> jsstring \<Rightarrow> jsstring \<Rightarrow> bool" where
  "exhausted rnd used title s \<longleftrightarrow>
     s \<in> used \<and> (\<forall>i. rnd i < 1000)
     \<and> (\<forall>n<1000. sanitizeFileName title @ numberToString n \<in> used)"

section \<open>Properties of the file names\<close>

lemma replaceAll_single:
  "replaceAll [c] [r] s = map (\<lambda>x. if x = c then r else x) s"
  by (induction s) (simp_all add: startsWith_def)

lemma unsafeChars_eq:
  "unsafeChars = [0x2F, 0x5C, 0x20, 0x3F, 0x2A, 0x3C, 0x3E, 0x7C, 0x22, 0x3A]"
  by (simp add: unsafeChars_def lit_def)

lemma sanitizeFileName_map:
  "sanitizeFileName name = map (\<lambda>c. if c \<in> set unsafeChars then 0x5F else c) name"
  by (simp add: sanitizeFileName_def lit_def replaceAll_single unsafeChars_eq)

text \<open>
  C8. For every input string, \<^verbatim>\<open>sanitizeFileName\<close> replaces each occurrence of
  each of the ten characters \<^verbatim>\<open>/ \ (space) ? * < > | " :\<close> by an underscore and
  leaves every other character as it is; the result contains none of the ten.
\<close>

theorem sanitizeFileName_replaces:
  "sanitizeFileName name =
     map (\<lambda>c. if c \<in> set unsafeChars then of_char CHR ''_'' else c) name
   \<and> set (sanitizeFileName name) \<inter> set unsafeChars = {}"
  by (auto simp add: sanitizeFileName_map unsafeChars_eq)

section \<open>Properties of the path assignment\<close>

lemma slice_drop_last: "0 < d \<Longrightarrow> slice xs 0 (- d) = take (length xs - nat d) xs"
  by (auto simp: slice_def Let_def max_def nat_diff_distrib' intro: arg_cong [where f = "\<lambda>n. take n xs"])

lemma slice_pops: "0 < d \<Longrightarrow> slice xs 0 (- d) = (butlast ^^ nat d) xs"
  by (simp add: slice_drop_last butlast_power)

lemma updatePath_cases:
  "updatePath path t lastLvl lvl =
     (if lvl > lastLvl then path @ [t]
      else if lvl < lastLvl then (butlast ^^ nat (lastLvl - lvl)) path
      else path)"
  using slice_pops [of "lastLvl - lvl" path] by (simp add: updatePath_def Let_def)

lemma processItem_skip:
  "item_title item = None \<or> item_title item = Some [] \<Longrightarrow>
   processItem e files repoDir dl st item = Some (Inr st)"
  by (auto simp: processItem_def)

lemma uniqueName_result:
  assumes r: "uniqueName rnd used title s k = Some y"
  shows "fst y \<notin> used
       \<and> (fst y = s \<or> (\<exists>j. fst y = sanitizeFileName title @ numberToString (rnd j)))"
proof (rule uniqueName.raw_induct
    [where P = "\<lambda>rnd used title s k y. fst y \<notin> used
       \<and> (fst y = s \<or> (\<exists>j. fst y = sanitizeFileName title @ numberToString (rnd j)))"
      and k = k and y = y])
  show "uniqueName rnd used title s k = Some y" by (rule r)
next
  fix f :: "(nat \<Rightarrow> nat) \<Rightarrow> jsstring set \<Rightarrow> jsstring \<Rightarrow> jsstring \<Rightarrow> nat \<Rightarrow> (jsstring \<times> nat) option"
  fix rnd used title s k y
  assume ih: "\<And>rnd used title s k y. f rnd used title s k = Some y \<Longrightarrow>
      fst y \<notin> used
       \<and> (fst y = s \<or> (\<exists>j. fst y = sanitizeFileName title @ numberToString (rnd j)))"
  assume step: "(if s \<in> used
      then f rnd used title (sanitizeFileName title @ numberToString (rnd k)) (Suc k)
      else Some (s, k)) = Some y"
  show "fst y \<notin> used
       \<and> (fst y = s \<or> (\<exists>j. fst y = sanitizeFileName title @ numberToString (rnd j)))"
  proof (cases "s \<in> used")
    case True
    with step have "f rnd used title (sanitizeFileName title @ numberToString (rnd k)) (Suc k) = Some y"
      by (simp only: if_True)
    from ih [OF this] show ?thesis by blast
  next
    case False
    with step have "y = (s, k)" by simp
    with False show ?thesis by simp
  qed
qed

lemma uniqueName_fresh:
  "s \<notin> used \<Longrightarrow> uniqueName rnd used title s k = Some (s, k)"
  by (subst uniqueName.simps) simp

lemma processItem_state:
  assumes p: "processItem e files repoDir dl st item = Some (Inr st')"
    and t: "item_title item = Some t" "t \<noteq> []"
  shows "pathPrefixed st' =
           updatePath (pathPrefixed st) (lastSanitizedTitle st) (lastLevel st)
             (case item_level item of Some l \<Rightarrow> l | None \<Rightarrow> 0)
         \<and> lastLevel st' = (case item_level item of Some l \<Rightarrow> l | None \<Rightarrow> 0)
         \<and> uniqueName (random e) (usedNames st) t (sanitizeFileName t) (draws st)
             = Some (lastSanitizedTitle st', draws st')
         \<and> usedNames st' = insert (lastSanitizedTitle st') (usedNames st)"
  using assms
  by (auto simp: processItem_def Let_def split: option.splits sum.splits if_splits prod.splits)

lemma processItem_name:
  assumes p: "processItem e files repoDir dl st item = Some (Inr st')"
    and t: "item_title item = Some t" "t \<noteq> []"
  shows "lastSanitizedTitle st' \<notin> usedNames st
       \<and> (lastSanitizedTitle st' = sanitizeFileName t
           \<or> (\<exists>j. lastSanitizedTitle st' = sanitizeFileName t @ numberToString (random e j)))
       \<and> (sanitizeFileName t \<notin> usedNames st \<longrightarrow> lastSanitizedTitle st' = sanitizeFileName t)"
proof -
  have u: "uniqueName (random e) (usedNames st) t (sanitizeFileName t) (draws st)
             = Some (lastSanitizedTitle st', draws st')"
    using processItem_state [OF p t] by blast
  from uniqueName_result [OF u] have
    a: "lastSanitizedTitle st' \<notin> usedNames st
       \<and> (lastSanitizedTitle st' = sanitizeFileName t
           \<or> (\<exists>j. lastSanitizedTitle st' = sanitizeFileName t @ numberToString (random e j)))"
    by simp
  have "lastSanitizedTitle st' = sanitizeFileName t" if "sanitizeFileName t \<notin> usedNames st"
    using u uniqueName_fresh [OF that, of "random e" t "draws st"] by simp
  with a show ?thesis by blast
qed

lemma example_paths:
  assumes "files (repoDir @ lit ''/.json'') = Some raw" and "decodeDoc e raw = Some doc"
  shows "\<exists>st. extractRepos e files repoDir exampleToc False = Some (Inr st)
     \<and> map fst (zip st) = [lit ''A/B.md'', lit ''A/C.md'', lit ''D.md'']"
  using assms
  by (simp add: extractRepos_def exampleToc_def tocItem_def processItem_def initialState_def
      uniqueName.simps sanitizeFileName_map unsafeChars_eq lit_def updatePath_def writeDoc_def
      slice_def Let_def)

lemma example_sanitized:
  assumes "files (repoDir @ lit ''/.json'') = Some raw" and "decodeDoc e raw = Some doc"
  shows "\<exists>st. extractRepos e files repoDir sanitizedToc False = Some (Inr st)
     \<and> map fst (zip st) = [lit ''My_Notes__1/B_C.md'']"
  using assms
  by (simp add: extractRepos_def sanitizedToc_def processItem_def initialState_def
      uniqueName.simps sanitizeFileName_map unsafeChars_eq lit_def updatePath_def writeDoc_def
      slice_def Let_def)

text \<open>
  C1. An entry without title, or with the empty title, leaves the state of the loop as it
  is. Every other entry that is processed compares its level with \<open>lastLevel\<close>, which
  is 0 at the start: a greater level pushes exactly \<open>lastSanitizedTitle\<close>, a smaller
  level pops \<open>lastLevel - level\<close> segments (a pop of the empty stack leaves it empty),
  an equal level leaves the stack. The entry then becomes the entry before:
  \<open>lastLevel\<close> is its level and \<open>lastSanitizedTitle\<close> is the name that the loop of
  \<open>uniqueName\<close> answered for it, which is new, is recorded as used, and is the sanitized
  title, followed by a number when the sanitized title was taken. The four entries
  A (TITLE, 0), B (DOC, 1), C (DOC, 1), D (DOC, 0) are written to \<^verbatim>\<open>A/B.md\<close>,
  \<^verbatim>\<open>A/C.md\<close> and \<^verbatim>\<open>D.md\<close>; the entries \<^verbatim>\<open>My Notes: 1\<close> (TITLE, 0), an entry
  without title, and \<^verbatim>\<open>B/C\<close> (DOC, 1) are written to \<^verbatim>\<open>My_Notes__1/B_C.md\<close>.
\<close>

theorem toc_path_assignment:
  "(item_title item = None \<or> item_title item = Some [] \<longrightarrow>
      processItem e files repoDir dl st item = Some (Inr st))
   \<and> (\<forall>t st'. item_title item = Some t \<and> t \<noteq> [] \<and>
          processItem e files repoDir dl st item = Some (Inr st') \<longrightarrow>
          (let level = (case item_level item of Some l \<Rightarrow> l | None \<Rightarrow> 0)
           in pathPrefixed st' =
                (if level > lastLevel st then pathPrefixed st @ [lastSanitizedTitle st]
                 else if level < lastLevel st
                 then (butlast ^^ nat (lastLevel st - level)) (pathPrefixed st)
                 else pathPrefixed st)
              \<and> lastLevel st' = level)
          \<and> uniqueName (random e) (usedNames st) t (sanitizeFileName t) (draws st)
               = Some (lastSanitizedTitle st', draws st')
          \<and> lastSanitizedTitle st' \<notin> usedNames st
          \<and> (lastSanitizedTitle st' = sanitizeFileName t
              \<or> (\<exists>j. lastSanitizedTitle st' = sanitizeFileName t @ numberToString (random e j)))
          \<and> (sanitizeFileName t \<notin> usedNames st \<longrightarrow> lastSanitizedTitle st' = sanitizeFileName t)
          \<and> usedNames st' = insert (lastSanitizedTitle st') (usedNames st))
   \<and> lastLevel initialState = 0 \<and> pathPrefixed initialState = []
   \<and> lastSanitizedTitle initialState = [] \<and> usedNames initialState = {}
   \<and> (files (repoDir @ lit ''/.json'') = Some raw \<and> decodeDoc e raw = Some doc \<longrightarrow>
        (\<exists>st. extractRepos e files repoDir exampleToc False = Some (Inr st)
           \<and> map fst (zip st) = [lit ''A/B.md'', lit ''A/C.md'', lit ''D.md''])
        \<and> (\<exists>st. extractRepos e files repoDir sanitizedToc False = Some (Inr st)
           \<and> map fst (zip st) = [lit ''My_Notes__1/B_C.md'']))"
proof (intro conjI impI allI)
  show "processItem e files repoDir dl st item = Some (Inr st)"
    if "item_title item = None \<or> item_title item = Some []"
    using that by (rule processItem_skip)
next
  fix t st'
  assume a: "item_title item = Some t \<and> t \<noteq> [] \<and> processItem e files repoDir dl st item = Some (Inr st')"
  then have p: "processItem e files repoDir dl st item = Some (Inr st')"
    and t: "item_title item = Some t" "t \<noteq> []" by simp_all
  show "let level = (case item_level item of Some l \<Rightarrow> l | None \<Rightarrow> 0)
           in pathPrefixed st' =
                (if level > lastLevel st then pathPrefixed st @ [lastSanitizedTitle st]
                 else if level < lastLevel st
                 then (butlast ^^ nat (lastLevel st - level)) (pathPrefixed st)
                 else pathPrefixed st)
              \<and> lastLevel st' = level"
    using processItem_state [OF p t] by (simp add: Let_def updatePath_cases)
  show "uniqueName (random e) (usedNames st) t (sanitizeFileName t) (draws st)
               = Some (lastSanitizedTitle st', draws st')"
    using processItem_state [OF p t] by blast
  show "usedNames st' = insert (lastSanitizedTitle st') (usedNames st)"
    using processItem_state [OF p t] by blast
  show "lastSanitizedTitle st' \<notin> usedNames st"
    using processItem_name [OF p t] by blast
  show "lastSanitizedTitle st' = sanitizeFileName t
              \<or> (\<exists>j. lastSanitizedTitle st' = sanitizeFileName t @ numberToString (random e j))"
    using processItem_name [OF p t] by blast
  show "lastSanitizedTitle st' = sanitizeFileName t" if "sanitizeFileName t \<notin> usedNames st"
    using processItem_name [OF p t] that by blast
next
  show "lastLevel initialState = 0" by (simp add: initialState_def)
  show "pathPrefixed initialState = []" by (simp add: initialState_def)
  show "lastSanitizedTitle initialState = []" by (simp add: initialState_def)
  show "usedNames initialState = {}" by (simp add: initialState_def)
next
  assume "files (repoDir @ lit ''/.json'') = Some raw \<and> decodeDoc e raw = Some doc"
  then show "\<exists>st. extractRepos e files repoDir exampleToc False = Some (Inr st)
           \<and> map fst (zip st) = [lit ''A/B.md'', lit ''A/C.md'', lit ''D.md'']"
    using example_paths [of files repoDir raw e doc] by simp
next
  assume "files (repoDir @ lit ''/.json'') = Some raw \<and> decodeDoc e raw = Some doc"
  then show "\<exists>st. extractRepos e files repoDir sanitizedToc False = Some (Inr st)
           \<and> map fst (zip st) = [lit ''My_Notes__1/B_C.md'']"
    using example_sanitized [of files repoDir raw e doc] by simp
qed

theorem toc_path_assignment_witness:
  "(\<exists>st. extractRepos exampleEnv exampleFiles (lit ''repo'') exampleToc False = Some (Inr st)
     \<and> map fst (zip st) = [lit ''A/B.md'', lit ''A/C.md'', lit ''D.md''])
   \<and> (\<exists>st. extractRepos exampleEnv exampleFiles (lit ''repo'') sanitizedToc False = Some (Inr st)
     \<and> map fst (zip st) = [lit ''My_Notes__1/B_C.md''])
   \<and> (\<exists>st'. processItem exampleEnv exampleFiles (lit ''repo'') False pushState
                (tocItem ''B'' 1 ''DOC'') = Some (Inr st')
           \<and> pathPrefixed st' = [lit ''A_1''] \<and> lastSanitizedTitle st' = lit ''B0''
           \<and> lastLevel st' = 1)"
proof -
  have "exampleFiles (lit ''repo'' @ lit ''/.json'') = Some []
        \<and> decodeDoc exampleEnv [] = Some \<lparr>body = Some (lit ''<p>x</p>''), body_asl = None\<rparr>"
    by (simp add: exampleFiles_def exampleEnv_def lit_def)
  then have ex: "(\<exists>st. extractRepos exampleEnv exampleFiles (lit ''repo'') exampleToc False = Some (Inr st)
     \<and> map fst (zip st) = [lit ''A/B.md'', lit ''A/C.md'', lit ''D.md''])
   \<and> (\<exists>st. extractRepos exampleEnv exampleFiles (lit ''repo'') sanitizedToc False = Some (Inr st)
     \<and> map fst (zip st) = [lit ''My_Notes__1/B_C.md''])"
    using toc_path_assignment [of _ exampleEnv exampleFiles "lit ''repo''" _ _ "[]"
        "\<lparr>body = Some (lit ''<p>x</p>''), body_asl = None\<rparr>"]
    by blast
  have n: "numberToString 0 = lit ''0''" by (subst numberToString.simps) (simp add: lit_def)
  have "\<exists>st'. processItem exampleEnv exampleFiles (lit ''repo'') False pushState
                (tocItem ''B'' 1 ''DOC'') = Some (Inr st')
           \<and> pathPrefixed st' = [lit ''A_1''] \<and> lastSanitizedTitle st' = lit ''B0''
           \<and> lastLevel st' = 1"
    using n
    by (simp add: pushState_def initialState_def tocItem_def processItem_def exampleEnv_def
        exampleFiles_def uniqueName.simps sanitizeFileName_map unsafeChars_eq lit_def writeDoc_def
        Let_def updatePath_def)
  with ex show ?thesis by blast
qed

text \<open>
  C7. When the level of an entry falls by more than the depth of the directory stack,
  the stack becomes empty and the round of the loop ends as any other: the state is
  updated, unless the document of the entry cannot be decoded.
\<close>

theorem path_underflow_clamps:
  assumes "item_title item = Some t" and "t \<noteq> []"
    and "level = (case item_level item of Some l \<Rightarrow> l | None \<Rightarrow> 0)"
    and "level < lastLevel st"
    and "int (length (pathPrefixed st)) < lastLevel st - level"
    and "uniqueName (random e) (usedNames st) t (sanitizeFileName t) (draws st) = Some (name, k)"
  shows "updatePath (pathPrefixed st) (lastSanitizedTitle st) (lastLevel st) level = []
     \<and> ((\<exists>st'. processItem e files repoDir dl st item = Some (Inr st')
                \<and> pathPrefixed st' = [] \<and> lastLevel st' = level)
         \<or> processItem e files repoDir dl st item = Some (Inl DocError))"
proof -
  have u: "updatePath (pathPrefixed st) (lastSanitizedTitle st) (lastLevel st) level = []"
    using assms(4,5) by (simp add: updatePath_def Let_def slice_def)
  show ?thesis
  proof (cases "processItem e files repoDir dl st item")
    case None
    then show ?thesis using assms(1,2,6) by (simp add: processItem_def Let_def split: sum.splits)
  next
    case (Some r)
    show ?thesis
    proof (cases r)
      case (Inl err)
      then show ?thesis using Some u by (cases err) simp
    next
      case (Inr st')
      then show ?thesis
        using Some u assms(1,2,3) processItem_state [of e files repoDir dl st item st' t] by simp
    qed
  qed
qed

theorem path_underflow_clamps_witness:
  "updatePath (pathPrefixed underflowState) (lastSanitizedTitle underflowState)
      (lastLevel underflowState) 0 = []
   \<and> (\<exists>st'. processItem exampleEnv exampleFiles (lit ''repo'') False underflowState
               (tocItem ''C'' 0 ''DOC'') = Some (Inr st')
           \<and> pathPrefixed st' = [] \<and> lastLevel st' = 0
           \<and> map fst (zip st') = [lit ''C.md''])"
proof -
  have p: "processItem exampleEnv exampleFiles (lit ''repo'') False underflowState
               (tocItem ''C'' 0 ''DOC'') \<noteq> Some (Inl DocError)"
    by (simp add: underflowState_def initialState_def tocItem_def processItem_def exampleEnv_def
        exampleFiles_def uniqueName.simps sanitizeFileName_map unsafeChars_eq lit_def writeDoc_def
        Let_def updatePath_def slice_def)
  have z: "\<And>st'. processItem exampleEnv exampleFiles (lit ''repo'') False underflowState
               (tocItem ''C'' 0 ''DOC'') = Some (Inr st') \<Longrightarrow> map fst (zip st') = [lit ''C.md'']"
    by (auto simp add: underflowState_def initialState_def tocItem_def processItem_def exampleEnv_def
        exampleFiles_def uniqueName.simps sanitizeFileName_map unsafeChars_eq lit_def writeDoc_def
        Let_def updatePath_def slice_def)
  have "uniqueName (random exampleEnv) (usedNames underflowState) (lit ''C'') (sanitizeFileName (lit ''C''))
          (draws underflowState) = Some (lit ''C'', 0)"
    by (simp add: underflowState_def initialState_def uniqueName.simps sanitizeFileName_map
        unsafeChars_eq lit_def)
  then show ?thesis
    using path_underflow_clamps [of "tocItem ''C'' 0 ''DOC''" "lit ''C''" 0 underflowState exampleEnv
        "lit ''C''" 0 exampleFiles "lit ''repo''" False] p z
    by (auto simp add: tocItem_def underflowState_def initialState_def lit_def)
qed

lemma exhausted_next:
  "exhausted rnd used title s \<Longrightarrow>
   exhausted rnd used title (sanitizeFileName title @ numberToString (rnd k))"
  unfolding exhausted_def by blast

lemma uniqueName_exhausted:
  assumes r: "uniqueName rnd used title s k = Some y"
  shows "\<not> exhausted rnd used title s"
proof (rule uniqueName.raw_induct
    [where P = "\<lambda>rnd used title s k y. \<not> exhausted rnd used title s" and k = k and y = y])
  show "uniqueName rnd used title s k = Some y" by (rule r)
next
  fix f :: "(nat \<Rightarrow> nat) \<Rightarrow> jsstring set \<Rightarrow> jsstring \<Rightarrow> jsstring \<Rightarrow> nat \<Rightarrow> (jsstring \<times> nat) option"
  fix rnd used title s k y
  assume ih: "\<And>rnd used title s k y. f rnd used title s k = Some y \<Longrightarrow> \<not> exhausted rnd used title s"
  assume step: "(if s \<in> used
      then f rnd used title (sanitizeFileName title @ numberToString (rnd k)) (Suc k)
      else Some (s, k)) = Some y"
  show "\<not> exhausted rnd used title s"
  proof
    assume e: "exhausted rnd used title s"
    then have "s \<in> used" unfolding exhausted_def by blast
    with step have "f rnd used title (sanitizeFileName title @ numberToString (rnd k)) (Suc k) = Some y"
      by (simp only: if_True)
    then have "\<not> exhausted rnd used title (sanitizeFileName title @ numberToString (rnd k))"
      by (rule ih)
    with exhausted_next [OF e] show False by blast
  qed
qed

lemma uniqueName_diverges:
  assumes "s \<in> used" and "\<forall>i. rnd i < 1000"
    and "\<forall>n<1000. sanitizeFileName title @ numberToString n \<in> used"
  shows "uniqueName rnd used title s k = None"
proof (cases "uniqueName rnd used title s k")
  case None
  then show ?thesis .
next
  case (Some y)
  have "exhausted rnd used title s" unfolding exhausted_def using assms by blast
  with uniqueName_exhausted [OF Some] show ?thesis by blast
qed

lemma digit_safe: "m < 10 \<Longrightarrow> (of_nat (48 + m) :: jschar) \<notin> set unsafeChars"
proof -
  assume "m < 10"
  then have "m = 0 \<or> m = 1 \<or> m = 2 \<or> m = 3 \<or> m = 4 \<or> m = 5 \<or> m = 6 \<or> m = 7 \<or> m = 8 \<or> m = 9"
    by arith
  then show ?thesis by (auto simp: unsafeChars_eq)
qed

lemma numberToString_safe: "set (numberToString n) \<inter> set unsafeChars = {}"
proof (induction n rule: numberToString.induct)
  case (1 n)
  show ?case
  proof (cases "n < 10")
    case True
    then show ?thesis using digit_safe [of n] by (subst numberToString.simps) simp
  next
    case False
    have "n mod 10 < 10" by simp
    then show ?thesis
      using False 1 digit_safe [of "n mod 10"] by (subst numberToString.simps) auto
  qed
qed

lemma sanitizeFileName_append:
  "sanitizeFileName (x @ y) = sanitizeFileName x @ sanitizeFileName y"
  by (simp add: sanitizeFileName_map)

lemma sanitizeFileName_number: "sanitizeFileName (numberToString n) = numberToString n"
  unfolding sanitizeFileName_map using numberToString_safe [of n] by (intro map_idI) auto

lemma processItem_titled:
  assumes "t \<noteq> []"
  shows "processItem e files repoDir dl st (titled t) = None
     \<or> (\<exists>st'. processItem e files repoDir dl st (titled t) = Some (Inr st')
              \<and> insert (sanitizeFileName t) (usedNames st) \<subseteq> usedNames st')"
proof (cases "sanitizeFileName t \<in> usedNames st")
  case True
  then show ?thesis
    using assms
    by (auto simp: processItem_def titled_def lit_def Let_def split: option.splits)
next
  case False
  then have "uniqueName (random e) (usedNames st) t (sanitizeFileName t) (draws st)
              = Some (sanitizeFileName t, draws st)"
    by (subst uniqueName.simps) simp
  then show ?thesis
    using assms by (auto simp: processItem_def titled_def lit_def Let_def)
qed

lemma extractLoop_titled:
  assumes "\<forall>t \<in> set ts. t \<noteq> []"
  shows "extractLoop e files repoDir dl st (map titled ts) = None
     \<or> (\<exists>st'. extractLoop e files repoDir dl st (map titled ts) = Some (Inr st')
              \<and> sanitizeFileName ` set ts \<union> usedNames st \<subseteq> usedNames st')"
  using assms
proof (induction ts arbitrary: st)
  case Nil
  then show ?case by simp
next
  case (Cons t ts)
  from Cons.prems have t: "t \<noteq> []" and ts: "\<forall>t \<in> set ts. t \<noteq> []" by simp_all
  from processItem_titled [OF t, of e files repoDir dl st]
  show ?case
  proof
    assume "processItem e files repoDir dl st (titled t) = None"
    then show ?thesis by simp
  next
    assume "\<exists>st'. processItem e files repoDir dl st (titled t) = Some (Inr st')
              \<and> insert (sanitizeFileName t) (usedNames st) \<subseteq> usedNames st'"
    then obtain st1 where p: "processItem e files repoDir dl st (titled t) = Some (Inr st1)"
      and u: "insert (sanitizeFileName t) (usedNames st) \<subseteq> usedNames st1" by blast
    from Cons.IH [OF ts, of st1]
    show ?thesis
    proof
      assume "extractLoop e files repoDir dl st1 (map titled ts) = None"
      with p show ?thesis by simp
    next
      assume "\<exists>st'. extractLoop e files repoDir dl st1 (map titled ts) = Some (Inr st')
              \<and> sanitizeFileName ` set ts \<union> usedNames st1 \<subseteq> usedNames st'"
      then obtain st2 where l: "extractLoop e files repoDir dl st1 (map titled ts) = Some (Inr st2)"
        and v: "sanitizeFileName ` set ts \<union> usedNames st1 \<subseteq> usedNames st2" by blast
      have "sanitizeFileName ` set (t # ts) \<union> usedNames st \<subseteq> usedNames st2"
        using u v by auto
      moreover have "extractLoop e files repoDir dl st (map titled (t # ts)) = Some (Inr st2)"
        using p l by simp
      ultimately show ?thesis by blast
    qed
  qed
qed

lemma extractLoop_append:
  "extractLoop e files repoDir dl st (xs @ ys) =
     (case extractLoop e files repoDir dl st xs of
        Some (Inr st') \<Rightarrow> extractLoop e files repoDir dl st' ys
      | r \<Rightarrow> r)"
  by (induction xs arbitrary: st) (auto split: option.splits sum.splits)

text \<open>
  C6. For the table of contents \<open>collisionToc\<close>, whose last entry has a title whose
  sanitized name and all its 1000 numbered variants are used, \<^verbatim>\<open>extractRepos\<close> does not
  return, whatever the random numbers below 1000 are: the loop that looks for an unused
  name has no exit when every candidate is taken.
\<close>

theorem name_collision_diverges:
  assumes "\<forall>i. random e i < 1000"
  shows "extractRepos e files repoDir collisionToc downloadImage = None"
proof -
  define ts where "ts = map (\<lambda>n. lit ''a'' @ numberToString n) [0..<1000] @ [lit ''a'']"
  have toc: "collisionToc = map titled ts @ [titled (lit ''a'')]"
    unfolding ts_def collisionToc_def by (simp add: comp_def del: upt_rec_numeral)
  have a_in: "lit ''a'' \<in> set ts" unfolding ts_def by (simp del: upt_rec_numeral)
  have n_in: "lit ''a'' @ numberToString n \<in> set ts" if "n < 1000" for n
    unfolding ts_def using that by (simp del: upt_rec_numeral)
  have ne: "\<forall>t \<in> set ts. t \<noteq> []"
    unfolding ts_def by (auto simp: lit_def simp del: upt_rec_numeral)
  have loop: "extractRepos e files repoDir collisionToc downloadImage =
      (case extractLoop e files repoDir downloadImage initialState (map titled ts) of
         Some (Inr st') \<Rightarrow> extractLoop e files repoDir downloadImage st' [titled (lit ''a'')]
       | r \<Rightarrow> r)"
    unfolding extractRepos_def toc by (rule extractLoop_append)
  from extractLoop_titled [OF ne, of e files repoDir downloadImage initialState]
  show ?thesis
  proof
    assume "extractLoop e files repoDir downloadImage initialState (map titled ts) = None"
    then show ?thesis unfolding loop by simp
  next
    assume "\<exists>st'. extractLoop e files repoDir downloadImage initialState (map titled ts) = Some (Inr st')
              \<and> sanitizeFileName ` set ts \<union> usedNames initialState \<subseteq> usedNames st'"
    then obtain st' where l: "extractLoop e files repoDir downloadImage initialState (map titled ts) = Some (Inr st')"
      and u: "sanitizeFileName ` set ts \<subseteq> usedNames st'" by blast
    have a: "sanitizeFileName (lit ''a'') \<in> usedNames st'" using u a_in by blast
    have b: "\<forall>n<1000. sanitizeFileName (lit ''a'') @ numberToString n \<in> usedNames st'"
    proof (intro allI impI)
      fix n :: nat
      assume "n < 1000"
      then have "sanitizeFileName (lit ''a'' @ numberToString n) \<in> usedNames st'"
        using u n_in by blast
      then show "sanitizeFileName (lit ''a'') @ numberToString n \<in> usedNames st'"
        by (simp add: sanitizeFileName_append sanitizeFileName_number)
    qed
    have "uniqueName (random e) (usedNames st') (lit ''a'') (sanitizeFileName (lit ''a'')) (draws st') = None"
      using a assms b by (rule uniqueName_diverges)
    then have "processItem e files repoDir downloadImage st' (titled (lit ''a'')) = None"
      by (simp add: processItem_def titled_def lit_def Let_def)
    then show ?thesis unfolding loop l by simp
  qed
qed

theorem name_collision_diverges_witness:
  "extractRepos exampleEnv exampleFiles (lit ''repo'') collisionToc False = None"
proof -
  have "\<forall>i. random exampleEnv i < 1000" by (simp add: exampleEnv_def)
  then show ?thesis by (rule name_collision_diverges)
qed

text \<open>
  Two entries with the same title, in an archive that holds their document: the second
  file name is the first with the digits of the first random number in front of
  \<^verbatim>\<open>.md\<close>.
\<close>

lemma two_equal_titles:
  assumes "t \<noteq> []" and "files (repoDir @ lit ''/.json'') = Some raw" and "decodeDoc e raw = Some doc"
  shows "\<exists>st. extractRepos e files repoDir
            [\<lparr>item_type = lit ''DOC'', item_url = None, item_level = Some 0, item_title = Some t\<rparr>,
             \<lparr>item_type = lit ''DOC'', item_url = None, item_level = Some 0, item_title = Some t\<rparr>] False
            = Some (Inr st)
          \<and> map fst (zip st) = [sanitizeFileName t @ lit ''.md'',
                                sanitizeFileName t @ numberToString (random e 0) @ lit ''.md'']
          \<and> numberToString (random e 0) \<noteq> []"
proof -
  have n: "numberToString (random e 0) \<noteq> []"
    by (subst numberToString.simps) simp
  have u1: "uniqueName (random e) {} t (sanitizeFileName t) 0 = Some (sanitizeFileName t, 0)"
    by (subst uniqueName.simps) simp
  have u2: "uniqueName (random e) {sanitizeFileName t} t (sanitizeFileName t) 0
            = Some (sanitizeFileName t @ numberToString (random e 0), Suc 0)"
    using n by (subst uniqueName.simps, subst uniqueName.simps) simp
  show ?thesis
    using assms n
    by (simp add: extractRepos_def initialState_def processItem_def u1 u2 Let_def updatePath_def
        writeDoc_def lit_def)
qed


section \<open>Properties of the converter\<close>

lemma dropWhile_all: "list_all P xs \<Longrightarrow> dropWhile P xs = []"
  by (induction xs) auto

lemma trim_whitespace: "list_all isWhiteSpace s \<Longrightarrow> trim s = []"
proof -
  assume "list_all isWhiteSpace s"
  then have "list_all isWhiteSpace (rev s)" by (simp add: list_all_iff)
  then have "dropWhile isWhiteSpace (rev s) = []" by (rule dropWhile_all)
  then show ?thesis unfolding trim_def trimEnd_def by (simp only: rev.simps dropWhile.simps)
qed

text \<open>
  C9. For the empty string and for every string of whitespace characters only,
  \<^verbatim>\<open>htmlToMarkdown\<close> answers the empty string; the input is neither parsed nor rendered.
\<close>

theorem htmlToMarkdown_blank:
  "list_all isWhiteSpace html \<Longrightarrow> htmlToMarkdown lc html options = []"
  by (simp add: htmlToMarkdown_def trim_whitespace)

theorem htmlToMarkdown_blank_witness:
  "list_all isWhiteSpace (lit '' '' @ [nl, 9, 0xA0]) \<and> list_all isWhiteSpace []
   \<and> htmlToMarkdown toLowerCaseAscii (lit '' '' @ [nl, 9, 0xA0]) None = []
   \<and> htmlToMarkdown toLowerCaseAscii [] None = []"
proof -
  have a: "list_all isWhiteSpace (lit '' '' @ [nl, 9, 0xA0])"
    by (simp add: isWhiteSpace_def lit_def nl_def)
  have b: "list_all isWhiteSpace []" by simp
  show ?thesis
    using a b htmlToMarkdown_blank [OF a, of toLowerCaseAscii None]
      htmlToMarkdown_blank [OF b, of toLowerCaseAscii None] by simp
qed

section \<open>Properties of the parser\<close>

lemma parseText_eq:
  "parseText html pos t =
     (t @ takeWhile (\<lambda>c. c \<noteq> 0x3C) (drop pos html),
      pos + length (takeWhile (\<lambda>c. c \<noteq> 0x3C) (drop pos html)))"
proof (induction html pos t rule: parseText.induct)
  case (1 html pos t)
  show ?case
  proof (cases "pos < length html \<and> html ! pos \<noteq> 0x3C")
    case True
    then have d: "drop pos html = html ! pos # drop (pos + 1) html"
      by (simp add: Cons_nth_drop_Suc)
    show ?thesis
      using True 1 by (subst parseText.simps) (simp add: d)
  next
    case False
    have "takeWhile (\<lambda>c. c \<noteq> 0x3C) (drop pos html) = []"
    proof (cases "pos < length html")
      case True
      with False have "drop pos html = 0x3C # drop (pos + 1) html"
        using Cons_nth_drop_Suc [of pos html] by simp
      then show ?thesis by simp
    next
      case False
      then show ?thesis by simp
    qed
    with False show ?thesis
      by (subst parseText.simps) auto
  qed
qed

lemma parseChildren_plain:
  assumes "0x3C \<notin> set s"
  shows "parseChildren lc s 0 =
     (if s = [] then ([], 0)
      else ((if trim s \<noteq> [] \<or> 0x20 \<in> set s then [Text s] else []), length s))"
proof (cases "s = []")
  case True
  then show ?thesis by (subst parseChildren.simps) simp
next
  case False
  have tw: "takeWhile (\<lambda>c. c \<noteq> 0x3C) s = s"
    using assms by (auto simp: takeWhile_eq_all_conv)
  have hd: "s ! 0 \<noteq> 0x3C" using assms False by (cases s) auto
  have e: "parseChildren lc s (length s) = ([], length s)"
    by (subst parseChildren.simps) simp
  show ?thesis
    using False hd by (subst parseChildren.simps) (simp add: parseText_eq tw e)
qed

text \<open>
  The claim C2 as it is written fails on the string that consists of one newline: the
  parser drops a text without a space and without a non-whitespace character, so the
  rendering is empty, while the decoding of the string is the string.
\<close>

theorem plain_text_counterexample:
  "0x3C \<notin> set [nl]
   \<and> nodeToMarkdown (parse toLowerCaseAscii [nl]) ATX \<noteq> decodeHtmlEntities [nl]"
  by (simp add: parse_def parseChildren_plain nl_def trim_def trimEnd_def isWhiteSpace_def
      decodeHtmlEntities_def entities_def lit_def startsWith_def)

text \<open>
  C2, amended. For every string \<open>s\<close> without \<^verbatim>\<open><\<close>, the rendering of the parse of
  \<open>s\<close> is the entity decoding of \<open>s\<close> when \<open>s\<close> holds a space or a character that
  is not whitespace, and the empty string otherwise; \<^verbatim>\<open>htmlToMarkdown\<close> answers the entity
  decoding of \<open>s\<close> when \<open>s\<close> holds a character that is not whitespace, and the empty
  string otherwise.
\<close>

theorem plain_text_roundtrip:
  assumes "0x3C \<notin> set s"
  shows "nodeToMarkdown (parse lc s) options =
           (if trim s \<noteq> [] \<or> 0x20 \<in> set s then decodeHtmlEntities s else [])
         \<and> htmlToMarkdown lc s opt = (if trim s \<noteq> [] then decodeHtmlEntities s else [])"
proof -
  have a: "nodeToMarkdown (parse lc s) options =
           (if trim s \<noteq> [] \<or> 0x20 \<in> set s then decodeHtmlEntities s else [])" for options
    using assms by (cases "s = []") (simp_all add: parse_def parseChildren_plain trim_def trimEnd_def)
  have "trim [] = []" by (simp add: trim_def trimEnd_def)
  then show ?thesis using a by (auto simp: htmlToMarkdown_def)
qed

theorem plain_text_roundtrip_witness:
  "0x3C \<notin> set (lit ''a &amp; b'')
   \<and> nodeToMarkdown (parse toLowerCaseAscii (lit ''a &amp; b'')) ATX = lit ''a & b''
   \<and> htmlToMarkdown toLowerCaseAscii (lit ''a &amp; b'') None = lit ''a & b''"
proof -
  have a: "0x3C \<notin> set (lit ''a &amp; b'')" by (simp add: lit_def)
  have t: "trim (lit ''a &amp; b'') \<noteq> []"
    by (simp add: lit_def trim_def trimEnd_def isWhiteSpace_def)
  have d: "decodeHtmlEntities (lit ''a &amp; b'') = lit ''a & b''"
    by (simp add: decodeHtmlEntities_def entities_def lit_def startsWith_def)
  show ?thesis
    using a t d plain_text_roundtrip [OF a, of toLowerCaseAscii ATX None] by simp
qed

lemma parseChildren_stops: "stopsAt html (snd (parseChildren lc html pos))"
proof (rule parseChildren_parseElement.induct(1)
    [of "\<lambda>lc html pos. stopsAt html (snd (parseChildren lc html pos))" "\<lambda>lc html pos. True"],
    goal_cases)
  case (1 lc html pos)
  note ps = parseChildren.simps [of lc html pos]
  show ?case
  proof (cases "pos < length html")
    case False
    then show ?thesis by (simp add: ps stopsAt_def)
  next
    case len: True
    show ?thesis
    proof (cases "html ! pos = 0x3C")
      case lt: True
      show ?thesis
      proof (cases "substring html pos (pos + 2) = lit ''</''")
        case True
        then show ?thesis using len lt by (simp add: ps stopsAt_def)
      next
        case nc: False
        show ?thesis
        proof (cases "substring html pos (pos + 4) = lit ''<!--''")
          case True
          then show ?thesis using 1(1) [OF len lt nc True] len lt nc by (simp add: ps)
        next
          case ne: False
          obtain el p' where pe: "parseElement lc html pos = (el, p')"
            by (cases "parseElement lc html pos")
          show ?thesis
            using 1(3) [OF len lt nc ne pe [symmetric]] len lt nc ne
            by (auto simp add: ps pe split: prod.splits)
        qed
      qed
    next
      case nlt: False
      obtain t p' where pt: "parseText html pos [] = (t, p')"
        by (cases "parseText html pos []")
      show ?thesis
        using 1(4) [OF len nlt pt [symmetric]] len nlt
        by (auto simp add: ps pt split: prod.splits)
    qed
  qed
next
  case 2
  show ?case by simp
qed

lemma parseElement_openTag:
  assumes "openTag html pos = Some (tagName, attrs, pos5)"
  shows "parseElement lc html pos =
     (Some (Element tagName attrs
              (if tagName \<in> set selfClosing then [] else fst (parseChildren lc html pos5))),
      (if tagName \<in> set selfClosing then pos5
       else skipEndTag lc html tagName (snd (parseChildren lc html pos5))))"
  using assms by (subst parseElement.simps) (simp split: prod.splits)

text \<open>
  In the model \<^verbatim>\<open>parseChildren\<close> answers, for every input, its children and a cursor
  that is at the end of the input or in front of a closing tag. An unterminated tag, an
  attribute with an unmatched quote, a truncated comment and a closing tag that matches
  no open tag are parsed to a tree.
\<close>

lemma parse_malformed:
  "(\<exists>children pos. parseChildren lc html 0 = (children, pos) \<and> parse lc html = Root children
       \<and> stopsAt html pos)
   \<and> parse toLowerCaseAscii (lit ''<div'') = Root [Element (lit ''div'') [] []]
   \<and> parse toLowerCaseAscii (lit ''<p class='' @ [0x22] @ lit ''x>y'')
       = Root [Element (lit ''p'') [(lit ''class'', []), (lit ''x'', [])] [Text (lit ''y'')]]
   \<and> parse toLowerCaseAscii (lit ''a<!-- b'') = Root [Text (lit ''a'')]
   \<and> parse toLowerCaseAscii (lit ''<b>x</i>y'') = Root [Element (lit ''b'') [] [Text (lit ''x'')]]"
proof (intro conjI)
  show "\<exists>children pos. parseChildren lc html 0 = (children, pos) \<and> parse lc html = Root children
       \<and> stopsAt html pos"
    using parseChildren_stops [of html lc 0]
    by (cases "parseChildren lc html 0") (simp add: parse_def)
qed code_simp+

lemma unclosed_Suc: "unclosed (Suc n) = lit ''<p>'' @ unclosed n"
  by (simp add: unclosed_def)

lemma length_unclosed: "length (unclosed n) = 3 * n"
  by (induction n) (simp_all add: unclosed_def lit_def)

lemma drop_unclosed: "k \<le> n \<Longrightarrow> drop (3 * k) (unclosed n) = unclosed (n - k)"
proof (induction k arbitrary: n)
  case 0
  then show ?case by simp
next
  case (Suc k)
  then obtain m where n: "n = Suc m" by (cases n) auto
  have "3 * Suc k = Suc (Suc (Suc (3 * k)))" by simp
  then have "drop (3 * Suc k) (unclosed (Suc m)) = drop (3 * k) (unclosed m)"
    by (simp only: unclosed_Suc) (simp add: lit_def)
  with Suc n show ?case by simp
qed

lemma openTag_p:
  assumes d: "drop pos html = lit ''<p>'' @ rest"
  shows "openTag html pos = Some (lit ''p'', [], pos + 3)"
proof -
  have d0: "drop pos html = 0x3C # 0x70 # 0x3E # rest" using d by (simp add: lit_def)
  have len: "length html = pos + 3 + length rest"
  proof -
    have "length (drop pos html) = 3 + length rest" by (simp add: d0)
    then show ?thesis by simp
  qed
  have d1: "drop (pos + 1) html = 0x70 # 0x3E # rest"
    using d0 by (metis list.sel(3) drop_Suc add.commute plus_1_eq_Suc tl_drop)
  have nth: "html ! (pos + k) = (0x3C # 0x70 # 0x3E # rest) ! k" if "pos + k < length html" for k
    using that d0 by (metis nth_drop less_imp_le_nat add_leD1)
  have g: "html ! (pos + 2) = 0x3E" using nth [of 2] len by simp
  have tm: "tagNameMatch (drop (pos + 1) html) = Some [0x70]"
    using d1 by (simp add: tagNameMatch_def isAlnum_def)
  have pa: "parseAttributes html (pos + 2) [] = ([], pos + 2)"
    using g by (subst parseAttributes.simps) simp
  show ?thesis
    using g len tm pa
    by (simp add: openTag_def Let_def charAt_def toLowerCaseAscii_def lit_def)
qed

lemma parseChildren_end: "length html \<le> pos \<Longrightarrow> parseChildren lc html pos = ([], pos)"
  by (subst parseChildren.simps) simp

lemma parseChildren_p:
  assumes d: "drop pos html = lit ''<p>'' @ rest"
  shows "parseChildren lc html pos =
     (case parseChildren lc html (pos + 3) of (cs, pos6) \<Rightarrow>
        (case parseChildren lc html (skipEndTag lc html (lit ''p'') pos6) of (siblings, pos') \<Rightarrow>
           (Element (lit ''p'') [] cs # siblings, pos')))"
proof -
  have d0: "drop pos html = 0x3C # 0x70 # 0x3E # rest" using d by (simp add: lit_def)
  have len: "pos < length html"
  proof -
    have "length (drop pos html) = 3 + length rest" by (simp add: d0)
    then show ?thesis by simp
  qed
  have h: "html ! pos = 0x3C" using d0 len by (metis nth_via_drop)
  have s2: "substring html pos (pos + 2) \<noteq> lit ''</''"
    by (simp add: substring_def d0 lit_def)
  have s4: "substring html pos (pos + 4) \<noteq> lit ''<!--''"
    by (simp add: substring_def d0 lit_def)
  have ns: "lit ''p'' \<notin> set selfClosing" by (simp add: selfClosing_def lit_def)
  show ?thesis
    using len h s2 s4 ns
    by (subst parseChildren.simps)
       (simp add: parseElement_openTag [OF openTag_p [OF d]] split: prod.splits)
qed

lemma parseChildren_unclosed:
  "k \<le> n \<Longrightarrow> \<exists>p. 3 * n \<le> p \<and> parseChildren lc (unclosed n) (3 * k) = (nested (n - k), p)"
proof (induction "n - k" arbitrary: k)
  case 0
  then have "k = n" by simp
  then show ?case by (simp add: parseChildren_end length_unclosed)
next
  case (Suc d)
  then have k: "Suc k \<le> n" and nk: "n - k = Suc (n - Suc k)" and d: "d = n - Suc k" by simp_all
  from Suc(1) [OF d k] obtain p where p: "3 * n \<le> p"
    and c: "parseChildren lc (unclosed n) (3 * Suc k) = (nested (n - Suc k), p)" by blast
  have dr: "drop (3 * k) (unclosed n) = lit ''<p>'' @ unclosed (n - Suc k)"
    using drop_unclosed [of k n] Suc.prems nk by (simp add: unclosed_Suc)
  let ?q = "skipEndTag lc (unclosed n) (lit ''p'') p"
  have q: "3 * n \<le> ?q" using p skipEndTag_ge [of p lc "unclosed n" "lit ''p''"] by simp
  have e: "parseChildren lc (unclosed n) ?q = ([], ?q)"
    using q by (simp add: parseChildren_end length_unclosed)
  have c': "parseChildren lc (unclosed n) (3 * k + 3) = (nested (n - Suc k), p)"
    using c by (simp add: add.commute)
  have "parseChildren lc (unclosed n) (3 * k) = (nested (n - k), ?q)"
    by (simp add: parseChildren_p [OF dr] c' e nk)
  with q show ?case by blast
qed

lemma depth_nested: "foldr max (map depth (nested n)) 0 = n"
  by (induction n) simp_all

text \<open>
  C3. The input of \<open>n\<close> unclosed tags \<^verbatim>\<open><p>\<close> is parsed, for every \<open>n\<close> and every
  lower-casing, to \<open>n\<close> elements nested in one another: the tree has \<open>n + 1\<close>
  levels. The parser recurses once for every open element and there is no bound on the
  depth; in the source every level is a pair of frames on the call stack, so that an
  input nested deeply enough ends in \<^verbatim>\<open>RangeError\<close> instead of a root node.
\<close>

theorem unclosed_tags_nest:
  "parse lc (unclosed n) = Root (nested n) \<and> depth (parse lc (unclosed n)) = Suc n"
proof -
  from parseChildren_unclosed [of 0 n lc] obtain p where
    "parseChildren lc (unclosed n) 0 = (nested n, p)" by auto
  then show ?thesis by (simp add: parse_def depth_nested)
qed


lemma takeWhile_tag:
  assumes "list_all isAlnum t"
  shows "takeWhile isAlnum (t @ 0x2F # rest) = t"
proof -
  have "\<not> isAlnum 0x2F" by (simp add: isAlnum_def)
  then show ?thesis using assms by (simp add: takeWhile_append2 list_all_iff)
qed

lemma openTag_slash:
  assumes d: "drop pos html = lit ''<'' @ t @ lit ''/>'' @ rest"
    and t: "t \<noteq> []" "list_all isAlnum t"
  shows "openTag html pos = Some (toLowerCaseAscii t, [], pos + length t + 3)"
proof -
  have d0: "drop pos html = 0x3C # t @ 0x2F # 0x3E # rest" using d by (simp add: lit_def)
  have len: "length html = pos + length t + 3 + length rest"
  proof -
    have "length (drop pos html) = length t + 3 + length rest" by (simp add: d0)
    then show ?thesis by simp
  qed
  have d1: "drop (pos + 1) html = t @ 0x2F # 0x3E # rest"
    using d0 by (metis drop_drop list.sel(3) drop_Suc drop_0 add.commute plus_1_eq_Suc tl_drop)
  have nth: "html ! (pos + k) = (0x3C # t @ 0x2F # 0x3E # rest) ! k" if "pos + k < length html" for k
    using that d0 by (metis nth_drop less_imp_le_nat add_leD1 linorder_not_less nat_le_linear drop_all list.distinct(1))
  have s: "html ! (pos + 1 + length t) = 0x2F"
    using nth [of "1 + length t"] len by (simp add: nth_append add.assoc)
  have g: "html ! (pos + 1 + length t + 1) = 0x3E"
    using nth [of "1 + length t + 1"] len by (simp add: nth_append add.assoc)
  have tm: "tagNameMatch (drop (pos + 1) html) = Some t"
    using t d1 by (simp add: tagNameMatch_def takeWhile_tag)
  have pa: "parseAttributes html (pos + 1 + length t) [] = ([], pos + 1 + length t)"
    using s by (subst parseAttributes.simps) simp
  have ll: "length (toLowerCaseAscii t) = length t" by (simp add: toLowerCaseAscii_def)
  show ?thesis
    using s g len tm pa ll
    by (simp add: openTag_def Let_def charAt_def)
qed

lemma parseElement_children:
  assumes "parseElement lc html pos = (Some (Element tagName attrs cs), p)"
  shows "\<exists>pos5. openTag html pos = Some (tagName, attrs, pos5)
       \<and> cs = (if tagName \<in> set selfClosing then [] else fst (parseChildren lc html pos5))"
proof (cases "openTag html pos")
  case None
  with assms show ?thesis by (subst (asm) parseElement.simps) simp
next
  case (Some r)
  obtain tn as p5 where r: "r = (tn, as, p5)" by (cases r)
  from assms parseElement_openTag [OF Some [unfolded r], of lc]
  show ?thesis using Some r by (auto split: if_splits)
qed

lemma openTag_spaced:
  assumes d: "drop pos html = lit ''<'' @ t @ lit '' />'' @ rest"
    and t: "t \<noteq> []" "list_all isAlnum t"
  shows "openTag html pos = Some (toLowerCaseAscii t, [], pos + length t + 4)"
proof -
  have d0: "drop pos html = 0x3C # t @ 0x20 # 0x2F # 0x3E # rest" using d by (simp add: lit_def)
  have len: "length html = pos + length t + 4 + length rest"
  proof -
    have "length (drop pos html) = length t + 4 + length rest" by (simp add: d0)
    then show ?thesis by simp
  qed
  have d1: "drop (pos + 1) html = t @ 0x20 # 0x2F # 0x3E # rest"
    using d0 by (metis list.sel(3) drop_Suc add.commute plus_1_eq_Suc tl_drop)
  have nth: "html ! (pos + k) = (0x3C # t @ 0x20 # 0x2F # 0x3E # rest) ! k" if "pos + k < length html" for k
    using that d0 by (metis nth_drop less_imp_le_nat add_leD1)
  have b: "html ! (pos + 1 + length t) = 0x20"
    using nth [of "1 + length t"] len by (simp add: nth_append add.assoc)
  have s: "html ! (pos + 1 + length t + 1) = 0x2F"
    using nth [of "1 + length t + 1"] len by (simp add: nth_append add.assoc)
  have g: "html ! (pos + 1 + length t + 2) = 0x3E"
    using nth [of "1 + length t + 2"] len by (simp add: nth_append add.assoc)
  have "\<not> isAlnum 0x20" by (simp add: isAlnum_def)
  then have "takeWhile isAlnum (t @ 0x20 # 0x2F # 0x3E # rest) = t"
    using t by (simp add: takeWhile_append2 list_all_iff)
  then have tm: "tagNameMatch (drop (pos + 1) html) = Some t"
    using t d1 by (simp add: tagNameMatch_def)
  have w1: "skipWhitespace html (pos + 1 + length t + 1) = pos + 1 + length t + 1"
    using s by (subst skipWhitespace.simps) (simp add: isWhiteSpace_def)
  have w: "skipWhitespace html (pos + 1 + length t) = pos + 1 + length t + 1"
    using b len w1 by (subst skipWhitespace.simps) (simp add: isWhiteSpace_def)
  have pa: "parseAttributes html (pos + 1 + length t) [] = ([], pos + 1 + length t + 1)"
    using b s len w by (subst parseAttributes.simps) (simp add: charAt_def)
  have ll: "length (toLowerCaseAscii t) = length t" by (simp add: toLowerCaseAscii_def)
  show ?thesis
    using s g len tm pa ll
    by (simp add: openTag_def Let_def charAt_def)
qed

text \<open>
  C10. The children of an element depend on its name alone. Whatever the open tag is,
  with or without attributes and with or without a slash in front of \<^verbatim>\<open>>\<close>, an element
  whose name is not in the list \<open>selfClosing\<close> takes as its children what
  \<^verbatim>\<open>parseChildren\<close> answers at the cursor behind the open tag, and an element whose name
  is one of the fourteen of the list has no children; every element that
  \<^verbatim>\<open>parseElement\<close> answers is of one of these two kinds. For the tags written
  \<^verbatim>\<open><t/>\<close> and \<^verbatim>\<open><t />\<close> the cursor behind the open tag is the position after
  \<^verbatim>\<open>/>\<close>.
\<close>

theorem self_closing_slash_ignored:
  "(openTag html pos = Some (tagName, attrs, pos5) \<longrightarrow>
      fst (parseElement lc html pos) =
        Some (Element tagName attrs
               (if tagName \<in> set selfClosing then [] else fst (parseChildren lc html pos5))))
   \<and> (openTag html pos = Some (tagName, attrs, pos5)
        \<and> substring html (pos5 - 2) pos5 = lit ''/>'' \<and> tagName \<notin> set selfClosing \<longrightarrow>
      fst (parseElement lc html pos) =
        Some (Element tagName attrs (fst (parseChildren lc html pos5))))
   \<and> (parseElement lc html pos = (Some (Element tagName attrs cs), p) \<longrightarrow>
        (\<exists>pos5. openTag html pos = Some (tagName, attrs, pos5)
           \<and> cs = (if tagName \<in> set selfClosing then [] else fst (parseChildren lc html pos5))))
   \<and> (drop pos html = lit ''<'' @ t @ lit ''/>'' @ rest \<and> t \<noteq> [] \<and> list_all isAlnum t \<longrightarrow>
        openTag html pos = Some (toLowerCaseAscii t, [], pos + length t + 3))
   \<and> (drop pos html = lit ''<'' @ t @ lit '' />'' @ rest \<and> t \<noteq> [] \<and> list_all isAlnum t \<longrightarrow>
        openTag html pos = Some (toLowerCaseAscii t, [], pos + length t + 4))
   \<and> length selfClosing = 14
   \<and> parse toLowerCaseAscii (lit ''<div/>abc'') = Root [Element (lit ''div'') [] [Text (lit ''abc'')]]
   \<and> parse toLowerCaseAscii (lit ''<div />abc'') = Root [Element (lit ''div'') [] [Text (lit ''abc'')]]
   \<and> parse toLowerCaseAscii (lit ''<div a/>x'')
        = Root [Element (lit ''div'') [(lit ''a'', [])] [Text (lit ''x'')]]
   \<and> parse toLowerCaseAscii (lit ''<a name='' @ [0x22] @ lit ''x'' @ [0x22] @ lit ''/>y'')
        = Root [Element (lit ''a'') [(lit ''name'', lit ''x'')] [Text (lit ''y'')]]
   \<and> parse toLowerCaseAscii (lit ''<br/>abc'') = Root [Element (lit ''br'') [] [], Text (lit ''abc'')]
   \<and> parse toLowerCaseAscii (lit ''<img src='' @ [0x22] @ lit ''s'' @ [0x22] @ lit ''/>t'')
        = Root [Element (lit ''img'') [(lit ''src'', lit ''s'')] [], Text (lit ''t'')]"
proof (intro conjI impI)
  show "fst (parseElement lc html pos) =
        Some (Element tagName attrs
               (if tagName \<in> set selfClosing then [] else fst (parseChildren lc html pos5)))"
    if "openTag html pos = Some (tagName, attrs, pos5)"
    using parseElement_openTag [OF that, of lc] by simp
next
  assume "openTag html pos = Some (tagName, attrs, pos5)
        \<and> substring html (pos5 - 2) pos5 = lit ''/>'' \<and> tagName \<notin> set selfClosing"
  then show "fst (parseElement lc html pos) =
        Some (Element tagName attrs (fst (parseChildren lc html pos5)))"
    using parseElement_openTag [of html pos tagName attrs pos5 lc] by simp
next
  assume "parseElement lc html pos = (Some (Element tagName attrs cs), p)"
  then show "\<exists>pos5. openTag html pos = Some (tagName, attrs, pos5)
           \<and> cs = (if tagName \<in> set selfClosing then [] else fst (parseChildren lc html pos5))"
    by (rule parseElement_children)
next
  assume "drop pos html = lit ''<'' @ t @ lit ''/>'' @ rest \<and> t \<noteq> [] \<and> list_all isAlnum t"
  then show "openTag html pos = Some (toLowerCaseAscii t, [], pos + length t + 3)"
    using openTag_slash [of pos html t rest] by simp
next
  assume "drop pos html = lit ''<'' @ t @ lit '' />'' @ rest \<and> t \<noteq> [] \<and> list_all isAlnum t"
  then show "openTag html pos = Some (toLowerCaseAscii t, [], pos + length t + 4)"
    using openTag_spaced [of pos html t rest] by simp
next
  show "length selfClosing = 14" by (simp add: selfClosing_def)
qed code_simp+

theorem self_closing_slash_ignored_witness:
  "fst (parseElement toLowerCaseAscii (lit ''x<a name='' @ [0x22] @ lit ''v'' @ [0x22] @ lit ''/>abc'') 1)
     = Some (Element (lit ''a'') [(lit ''name'', lit ''v'')] [Text (lit ''abc'')])
   \<and> fst (parseElement toLowerCaseAscii (lit ''<hr />abc'') 0) = Some (Element (lit ''hr'') [] [])
   \<and> fst (parseElement toLowerCaseAscii (lit ''<DIV />abc'') 0)
     = Some (Element (lit ''div'') [] [Text (lit ''abc'')])"
proof -
  let ?h = "lit ''x<a name='' @ [0x22] @ lit ''v'' @ [0x22] @ lit ''/>abc''"
  have o: "openTag ?h 1 = Some (lit ''a'', [(lit ''name'', lit ''v'')], 14)"
    by code_simp
  have sl: "substring ?h (14 - 2) 14 = lit ''/>''" by code_simp
  have m: "lit ''a'' \<notin> set selfClosing" "lit ''hr'' \<in> set selfClosing"
    "lit ''div'' \<notin> set selfClosing"
    by (simp_all add: selfClosing_def lit_def)
  have c: "fst (parseChildren toLowerCaseAscii ?h 14) = [Text (lit ''abc'')]"
    by code_simp
  have b: "drop 0 (lit ''<hr />abc'') = lit ''<'' @ lit ''hr'' @ lit '' />'' @ lit ''abc''
           \<and> lit ''hr'' \<noteq> [] \<and> list_all isAlnum (lit ''hr'')"
    by (simp add: lit_def isAlnum_def)
  have d: "drop 0 (lit ''<DIV />abc'') = lit ''<'' @ lit ''DIV'' @ lit '' />'' @ lit ''abc''
           \<and> lit ''DIV'' \<noteq> [] \<and> list_all isAlnum (lit ''DIV'')"
    by (simp add: lit_def isAlnum_def)
  have l: "toLowerCaseAscii (lit ''DIV'') = lit ''div''" "toLowerCaseAscii (lit ''hr'') = lit ''hr''"
    by (simp_all add: toLowerCaseAscii_def lit_def)
  have c2: "fst (parseChildren toLowerCaseAscii (lit ''<DIV />abc'') (0 + length (lit ''DIV'') + 4))
            = [Text (lit ''abc'')]"
    by code_simp
  have h1: "fst (parseElement toLowerCaseAscii ?h 1)
     = Some (Element (lit ''a'') [(lit ''name'', lit ''v'')] [Text (lit ''abc'')])"
    using self_closing_slash_ignored [of ?h 1 "lit ''a''" "[(lit ''name'', lit ''v'')]" 14
        toLowerCaseAscii] o sl m c by simp
  have o2: "openTag (lit ''<hr />abc'') 0 = Some (lit ''hr'', [], 0 + length (lit ''hr'') + 4)"
    using self_closing_slash_ignored [where html = "lit ''<hr />abc''" and pos = 0 and t = "lit ''hr''"
        and rest = "lit ''abc''"]
      b l by simp
  have h2: "fst (parseElement toLowerCaseAscii (lit ''<hr />abc'') 0) = Some (Element (lit ''hr'') [] [])"
    using self_closing_slash_ignored [of "lit ''<hr />abc''" 0 "lit ''hr''" "[]"
        "0 + length (lit ''hr'') + 4" toLowerCaseAscii] o2 m by simp
  have o3: "openTag (lit ''<DIV />abc'') 0 = Some (lit ''div'', [], 0 + length (lit ''DIV'') + 4)"
    using self_closing_slash_ignored [where html = "lit ''<DIV />abc''" and pos = 0 and t = "lit ''DIV''"
        and rest = "lit ''abc''"]
      d l by simp
  have h3: "fst (parseElement toLowerCaseAscii (lit ''<DIV />abc'') 0)
     = Some (Element (lit ''div'') [] [Text (lit ''abc'')])"
    using self_closing_slash_ignored [of "lit ''<DIV />abc''" 0 "lit ''div''" "[]"
        "0 + length (lit ''DIV'') + 4" toLowerCaseAscii] o3 m c2 by simp
  show ?thesis using h1 h2 h3 by simp
qed


end
